theory Spec2Isabelle
  imports Complex_Main "HOL-Library.Char_ord" "HOL-Library.List_Lexorder"
    "HOL-Library.Product_Lexorder" "HOL-Library.Sublist"
begin

section \<open>Data model\<close>

text \<open>
  The dashboards work on the Titanic passenger table.  A data frame is a list of rows in
  row order.  Floating-point columns (\<open>age\<close>, \<open>fare\<close>, the survival rates) are modelled by
  exact rationals, a missing value (NaN) by \<open>None\<close>.  Exceptions are values of
  \<open>py_error\<close>, carried in the left summand of a result.
\<close>

datatype py_error = KeyError | ValueError | TypeError

datatype age_label = Child | Teenager | Adult | Senior

datatype fare_label = Q1_Low | Q2 | Q3 | Q4_High | Low | Medium | High

record passenger =
  survived :: int
  pclass :: int
  sex :: string
  age :: "rat option"
  sibsp :: int
  parch :: int
  fare :: rat
  embarked :: "string option"

record prow = passenger +
  sex_label :: "string option"
  age_group :: "age_label option"
  family_size :: int
  fare_group :: "fare_label option"

text \<open>
  The frames that the module-level variables of \<open>src/app.py\<close> hold: \<open>NoColumns\<close> is
  \<open>pd.DataFrame()\<close>, the frame without any column used when loading fails; \<open>RawEmpty\<close> is a
  loaded table without rows, which keeps the loaded columns only; \<open>Prepared\<close> has the derived
  columns as well.
\<close>

datatype frame = NoColumns | RawEmpty | Prepared "prow list"

fun empty :: "frame \<Rightarrow> bool" where
  "empty NoColumns = True"
| "empty RawEmpty = True"
| "empty (Prepared rows) = (rows = [])"

fun rows_of :: "frame \<Rightarrow> prow list" where
  "rows_of (Prepared rows) = rows"
| "rows_of _ = []"

datatype feature = F_pclass | F_sex_label | F_age_group | F_embarked | F_family_size | F_fare_group

text \<open>
  The values of a grouping column.  \<open>StrOfInt i\<close> is the string \<open>str(i)\<close> produced by
  \<open>astype(str)\<close> on the \<open>pclass\<close> column.
\<close>

datatype cat = IntCat int | StrCat string | AgeCat age_label | FareCat fare_label | StrOfInt int

fun feature_col :: "feature \<Rightarrow> prow \<Rightarrow> cat option" where
  "feature_col F_pclass r = Some (IntCat (pclass r))"
| "feature_col F_sex_label r = map_option StrCat (sex_label r)"
| "feature_col F_age_group r = map_option AgeCat (age_group r)"
| "feature_col F_embarked r = map_option StrCat (embarked r)"
| "feature_col F_family_size r = Some (IntCat (family_size r))"
| "feature_col F_fare_group r = map_option FareCat (fare_group r)"

section \<open>The data-table library operations the scripts call\<close>

text \<open>First-occurrence order of the distinct values of a list.\<close>

definition unique :: "'a list \<Rightarrow> 'a list" where
  "unique xs = rev (remdups (rev xs))"

text \<open>\<open>Series.dropna()\<close>: the values of a column that are not missing, in row order.\<close>

definition dropna :: "'a option list \<Rightarrow> 'a list" where
  "dropna col = [v. Some v \<leftarrow> col]"

text \<open>\<open>Series.mean()\<close>: missing values are skipped, the mean of nothing is NaN.\<close>

definition mean :: "rat option list \<Rightarrow> rat option" where
  "mean col =
     (let vs = dropna col
      in if vs = [] then None else Some (sum_list vs / of_nat (length vs)))"

text \<open>\<open>Series.fillna(v)\<close> with a scalar that may itself be NaN.\<close>

definition fillna :: "'a option \<Rightarrow> 'a option \<Rightarrow> 'a option" where
  "fillna v x = (case x of None \<Rightarrow> v | Some y \<Rightarrow> Some y)"

text \<open>
  \<open>Series.mode()\<close>: the non-missing values of highest frequency, returned in sorted order.
\<close>

definition mode :: "string option list \<Rightarrow> string list" where
  "mode col =
     (let vs = dropna col;
          ks = unique vs;
          m = fold max (map (count_list vs) ks) 0
      in sort (filter (\<lambda>k. count_list vs k = m) ks))"

text \<open>\<open>s[0]\<close> on the result of \<open>mode()\<close>: label \<open>0\<close> is missing when there is no mode.\<close>

definition first_label :: "'a list \<Rightarrow> py_error + 'a" where
  "first_label xs = (case xs of [] \<Rightarrow> Inl KeyError | x # _ \<Rightarrow> Inr x)"

text \<open>
  \<open>numpy.searchsorted\<close> on increasing bin edges: the number of edges below the value
  (\<open>side='left'\<close>), or below or equal to it (\<open>side='right'\<close>).
\<close>

definition searchsorted_left :: "rat list \<Rightarrow> rat \<Rightarrow> nat" where
  "searchsorted_left bins x = length (filter (\<lambda>b. b < x) bins)"

definition searchsorted_right :: "rat list \<Rightarrow> rat \<Rightarrow> nat" where
  "searchsorted_right bins x = length (filter (\<lambda>b. b \<le> x) bins)"

text \<open>
  The bin of one value: with \<open>right=True\<close> the intervals are \<open>(a, b]\<close>, with \<open>right=False\<close>
  they are \<open>[a, b)\<close>; \<open>include_lowest\<close> puts a value equal to the first edge into the first
  bin; a value outside every interval, and a missing value, has no bin.
\<close>

definition cut_one :: "rat list \<Rightarrow> bool \<Rightarrow> 'l list \<Rightarrow> bool \<Rightarrow> rat option \<Rightarrow> 'l option" where
  "cut_one bins right labels include_lowest x =
     (case x of
        None \<Rightarrow> None
      | Some v \<Rightarrow>
          (let ids0 = (if right then searchsorted_left bins v else searchsorted_right bins v);
               ids = (if include_lowest \<and> bins \<noteq> [] \<and> v = hd bins then 1 else ids0)
           in if ids = length bins \<or> ids = 0 then None else Some (labels ! (ids - 1))))"

text \<open>
  The common core of \<open>pd.cut\<close> and \<open>pd.qcut\<close>: duplicate edges raise or are dropped, the
  labels must be one fewer than the edges that remain.
\<close>

definition bins_to_cuts ::
  "rat option list \<Rightarrow> rat list \<Rightarrow> bool \<Rightarrow> 'l list \<Rightarrow> bool \<Rightarrow> bool \<Rightarrow> py_error + 'l option list" where
  "bins_to_cuts x bins right labels include_lowest drop_duplicates =
     (let unique_bins = unique bins;
          dup = (length unique_bins < length bins \<and> length bins \<noteq> 2)
      in if dup \<and> \<not> drop_duplicates then Inl ValueError
         else
           (let bins' = (if dup then unique_bins else bins)
            in if length labels \<noteq> length bins' - 1 then Inl ValueError
               else Inr (map (cut_one bins' right labels include_lowest) x)))"

text \<open>\<open>numpy.linspace(a, b, n + 1)\<close>: the \<open>n + 1\<close> edges of \<open>n\<close> equal-width intervals.\<close>

definition linspace :: "rat \<Rightarrow> rat \<Rightarrow> nat \<Rightarrow> rat list" where
  "linspace a b n = map (\<lambda>i. a + of_nat i * (b - a) / of_nat n) [0..<n] @ [b]"

definition list_min :: "rat list \<Rightarrow> rat" where
  "list_min xs = fold min xs (hd xs)"

definition list_max :: "rat list \<Rightarrow> rat" where
  "list_max xs = fold max xs (hd xs)"

text \<open>
  \<open>pd.cut\<close> with a number of bins: equal-width edges over the range of the data; a constant
  column is widened by 0.1 percent on both sides, otherwise the first edge (for \<open>right=True\<close>)
  or the last one is moved by 0.1 percent of the range so that the extreme value has a bin.
\<close>

definition nbins_to_bins :: "rat list \<Rightarrow> nat \<Rightarrow> bool \<Rightarrow> py_error + rat list" where
  "nbins_to_bins xs nbins right =
     (if nbins < 1 then Inl ValueError
      else if xs = [] then Inl ValueError
      else
        (let mn = list_min xs; mx = list_max xs
         in if mn = mx then
              Inr (linspace (mn - (if mn \<noteq> 0 then \<bar>mn\<bar> / 1000 else 1 / 1000))
                            (mx + (if mx \<noteq> 0 then \<bar>mx\<bar> / 1000 else 1 / 1000)) nbins)
            else
              (let bins = linspace mn mx nbins; adj = (mx - mn) / 1000
               in if right then Inr (bins[0 := bins ! 0 - adj])
                  else Inr (bins[nbins := bins ! nbins + adj]))))"

definition cut_nbins :: "rat list \<Rightarrow> nat \<Rightarrow> 'l list \<Rightarrow> py_error + 'l option list" where
  "cut_nbins xs nbins labels =
     (case nbins_to_bins xs nbins True of
        Inl e \<Rightarrow> Inl e
      | Inr bins \<Rightarrow> bins_to_cuts (map Some xs) bins True labels False False)"

text \<open>\<open>Series.quantile\<close> with linear interpolation, on the sorted values.\<close>

definition quantile :: "rat list \<Rightarrow> rat \<Rightarrow> rat" where
  "quantile vs q =
     (let n = length vs;
          pos = q * of_nat (n - 1);
          lo = nat \<lfloor>pos\<rfloor>;
          frac = pos - of_nat lo
      in if lo + 1 < n then vs ! lo + (vs ! (lo + 1) - vs ! lo) * frac else vs ! lo)"

text \<open>
  \<open>pd.qcut(x, q=4, labels=..., duplicates='drop')\<close>: the edges are the quantiles 0, 1/4,
  1/2, 3/4, 1; equal edges are dropped, after which the four labels no longer fit and
  ValueError is raised.  Without data every edge is NaN, and the edges collapse to one.
\<close>

definition qcut4 :: "rat list \<Rightarrow> 'l list \<Rightarrow> py_error + 'l option list" where
  "qcut4 xs labels =
     (if xs = [] then Inl ValueError
      else
        (let vs = sort xs;
             bins = map (quantile vs) [0, 1 / 4, 1 / 2, 3 / 4, 1]
         in bins_to_cuts (map Some xs) bins True labels True True))"

text \<open>
  \<open>numpy.round(x, n)\<close>: scale by \<open>10 ^ n\<close>, round to the nearest integer with halves going
  to the even neighbour, scale back.
\<close>

definition rint :: "rat \<Rightarrow> int" where
  "rint x =
     (let f = \<lfloor>x\<rfloor>; d = x - of_int f
      in if d < 1 / 2 then f else if 1 / 2 < d then f + 1 else if even f then f else f + 1)"

definition round_dec :: "nat \<Rightarrow> rat \<Rightarrow> rat" where
  "round_dec n x = of_int (rint (x * 10 ^ n)) / 10 ^ n"

text \<open>
  The categories of a categorical column, \<open>None\<close> for a column that is not categorical.
  \<open>age_group\<close> has the four labels of its binning; \<open>fare_group\<close> has the labels of the
  binning that produced it, which the labels present in the rows tell.
\<close>

definition categories :: "feature \<Rightarrow> prow list \<Rightarrow> cat list option" where
  "categories f rows =
     (case f of
        F_age_group \<Rightarrow> Some (map AgeCat [Child, Teenager, Adult, Senior])
      | F_fare_group \<Rightarrow>
          Some (if list_ex (\<lambda>r. fare_group r \<in> {Some Low, Some Medium, Some High}) rows
                then map FareCat [Low, Medium, High]
                else map FareCat [Q1_Low, Q2, Q3, Q4_High])
      | _ \<Rightarrow> None)"

text \<open>The sort key of a group label: numbers by value, strings lexicographically.\<close>

fun cat_key :: "cat \<Rightarrow> int \<times> string" where
  "cat_key (IntCat i) = (i, [])"
| "cat_key (StrCat s) = (0, s)"
| "cat_key (AgeCat a) = (0, [])"
| "cat_key (FareCat l) = (0, [])"
| "cat_key (StrOfInt i) = (i, [])"

text \<open>
  The group labels of \<open>groupby(feature)\<close>: rows with a missing label are dropped; a
  categorical column gives its categories in their order, all of them unless
  \<open>observed\<close>; any other column gives its distinct values sorted.
\<close>

definition group_keys :: "bool \<Rightarrow> feature \<Rightarrow> prow list \<Rightarrow> cat list" where
  "group_keys observed f rows =
     (let col = dropna (map (feature_col f) rows)
      in case categories f rows of
           Some cs \<Rightarrow> if observed then filter (\<lambda>c. c \<in> set col) cs else cs
         | None \<Rightarrow> sort_key cat_key (unique col))"

definition group_rows :: "feature \<Rightarrow> prow list \<Rightarrow> cat \<Rightarrow> prow list" where
  "group_rows f rows k = filter (\<lambda>r. feature_col f r = Some k) rows"

text \<open>\<open>groupby(feature)['survived'].mean()\<close>.\<close>

definition groupby_mean :: "bool \<Rightarrow> feature \<Rightarrow> prow list \<Rightarrow> (cat \<times> rat option) list" where
  "groupby_mean observed f rows =
     map (\<lambda>k. (k, mean (map (\<lambda>r. Some (of_int (survived r))) (group_rows f rows k))))
       (group_keys observed f rows)"

text \<open>
  The index of \<open>value_counts()\<close>, the labels that get an entry: every category of a
  categorical column, the distinct values of any other column.
\<close>

definition count_keys :: "feature \<Rightarrow> prow list \<Rightarrow> cat list" where
  "count_keys f t =
     (case categories f t of
        Some cs \<Rightarrow> cs
      | None \<Rightarrow> unique (dropna (map (feature_col f) t)))"

text \<open>
  \<open>Series.value_counts()\<close>: missing values are not counted; a categorical column has an
  entry for every category, any other column one for every distinct value; the entries are
  sorted by descending count.
\<close>

definition value_counts :: "feature \<Rightarrow> prow list \<Rightarrow> (cat \<times> nat) list" where
  "value_counts f rows =
     (let col = dropna (map (feature_col f) rows)
      in sort_key (\<lambda>(k, n). - int n) (map (\<lambda>k. (k, count_list col k)) (count_keys f rows)))"

text \<open>\<open>sort_values(ascending=False)\<close> on the rate column: missing rates come last.\<close>

definition sort_rates_desc :: "(cat \<times> rat option) list \<Rightarrow> (cat \<times> rat option) list" where
  "sort_rates_desc xs =
     sort_key (\<lambda>(k, v). - the v) (filter (\<lambda>(k, v). v \<noteq> None) xs) @ filter (\<lambda>(k, v). v = None) xs"

fun astype_str :: "cat \<Rightarrow> cat" where
  "astype_str (IntCat i) = StrOfInt i"
| "astype_str c = c"

section \<open>Data preparation\<close>

text \<open>
  Imputation, the same in \<open>src/app.py\<close> and \<open>src/titanic/app.py\<close>: the mean of the ages
  fills the missing ages, the first mode of \<open>embarked\<close> fills the missing ports.
\<close>

definition impute :: "passenger list \<Rightarrow> py_error + passenger list" where
  "impute df =
     (let mean_age = mean (map age df);
          df1 = map (\<lambda>r. r\<lparr>age := fillna mean_age (age r)\<rparr>) df
      in case first_label (mode (map embarked df1)) of
           Inl e \<Rightarrow> Inl e
         | Inr most_common_embarked \<Rightarrow>
             Inr (map (\<lambda>r. r\<lparr>embarked := fillna (Some most_common_embarked) (embarked r)\<rparr>) df1))"

text \<open>\<open>df['sex'].map({'male': 'Male', 'female': 'Female'})\<close>: any other value maps to NaN.\<close>

definition sex_map :: "string \<Rightarrow> string option" where
  "sex_map s = (if s = ''male'' then Some ''Male'' else if s = ''female'' then Some ''Female'' else None)"

text \<open>
  \<open>pd.cut(df['age'], bins=[0, 13, 19, 60, 100], labels=labels, right=False, ordered=True,
  include_lowest=True)\<close>.
\<close>

definition age_bins :: "rat list" where
  "age_bins = [0, 13, 19, 60, 100]"

definition age_labels :: "age_label list" where
  "age_labels = [Child, Teenager, Adult, Senior]"

definition cut_age :: "rat option list \<Rightarrow> py_error + age_label option list" where
  "cut_age ages = bins_to_cuts ages age_bins False age_labels True False"

definition quartile_labels :: "fare_label list" where
  "quartile_labels = [Q1_Low, Q2, Q3, Q4_High]"

text \<open>\<open>src/titanic/app.py\<close>, line 26: quartile binning, nothing caught.\<close>

definition fare_group_titanic :: "rat list \<Rightarrow> py_error + fare_label option list" where
  "fare_group_titanic fares = qcut4 fares quartile_labels"

text \<open>\<open>src/app.py\<close>, lines 41 to 47: quartile binning, three equal-width bins on ValueError.\<close>

definition fare_group_root :: "rat list \<Rightarrow> py_error + fare_label option list" where
  "fare_group_root fares =
     (case qcut4 fares quartile_labels of
        Inr fare_bins \<Rightarrow> Inr fare_bins
      | Inl ValueError \<Rightarrow> cut_nbins fares 3 [Low, Medium, High]
      | Inl e \<Rightarrow> Inl e)"

definition add_columns :: "passenger \<Rightarrow> age_label option \<Rightarrow> fare_label option \<Rightarrow> prow" where
  "add_columns r ag fg =
     \<lparr>survived = survived r, pclass = pclass r, sex = sex r, age = age r, sibsp = sibsp r,
      parch = parch r, fare = fare r, embarked = embarked r,
      sex_label = sex_map (sex r), age_group = ag, family_size = sibsp r + parch r + 1,
      fare_group = fg\<rparr>"

text \<open>
  Cleaning and feature engineering, with the fare binning of the variant as a parameter.
\<close>

definition prepare ::
  "(rat list \<Rightarrow> py_error + fare_label option list) \<Rightarrow> passenger list \<Rightarrow> py_error + prow list" where
  "prepare fare_binning df =
     (case impute df of
        Inl e \<Rightarrow> Inl e
      | Inr df2 \<Rightarrow>
          (case cut_age (map age df2) of
             Inl e \<Rightarrow> Inl e
           | Inr ags \<Rightarrow>
               (case fare_binning (map fare df2) of
                  Inl e \<Rightarrow> Inl e
                | Inr fgs \<Rightarrow> Inr (map (\<lambda>(r, ag, fg). add_columns r ag fg) (zip df2 (zip ags fgs))))))"

text \<open>\<open>df[df['survived'] == 1].copy()\<close> on a list of rows.\<close>

definition survivors :: "('a passenger_scheme) list \<Rightarrow> ('a passenger_scheme) list" where
  "survivors rows = filter (\<lambda>r. survived r = 1) rows"

text \<open>The same on a frame: a frame without the column raises KeyError.\<close>

fun df_after :: "frame \<Rightarrow> py_error + frame" where
  "df_after NoColumns = Inl KeyError"
| "df_after RawEmpty = Inr RawEmpty"
| "df_after (Prepared rows) = Inr (Prepared (survivors rows))"

text \<open>
  The module level of \<open>src/app.py\<close>: the argument is what loading gives, \<open>None\<close> when it
  raises; the table is prepared only when it is not empty.  The result is \<open>(df, df_after)\<close>.
\<close>

definition script_root :: "passenger list option \<Rightarrow> py_error + frame \<times> frame" where
  "script_root loaded =
     (let prepared =
            (case loaded of
               None \<Rightarrow> Inr NoColumns
             | Some rows \<Rightarrow>
                 if rows \<noteq> [] then
                   (case prepare fare_group_root rows of Inl e \<Rightarrow> Inl e | Inr p \<Rightarrow> Inr (Prepared p))
                 else Inr RawEmpty)
      in case prepared of
           Inl e \<Rightarrow> Inl e
         | Inr df \<Rightarrow> (case df_after df of Inl e \<Rightarrow> Inl e | Inr dfa \<Rightarrow> Inr (df, dfa)))"

text \<open>The module level of \<open>src/titanic/app.py\<close>: no guard.  The result is \<open>(df, df_after)\<close>.\<close>

definition script_titanic :: "passenger list \<Rightarrow> py_error + prow list \<times> prow list" where
  "script_titanic loaded =
     (case prepare fare_group_titanic loaded of
        Inl e \<Rightarrow> Inl e
      | Inr df \<Rightarrow> Inr (df, survivors df))"

section \<open>Figures\<close>

text \<open>
  A figure is the data it shows: \<open>NoData\<close> is the figure without any trace that carries
  the annotation "No data available"; the others are the raw column handed to the histogram,
  and the bars with their values.
\<close>

datatype figure =
    NoData
  | Histogram "cat option list"
  | CountBars "(cat \<times> nat) list"
  | RateBars "(cat \<times> rat option) list"

subsection \<open>\<open>src/app.py\<close>\<close>

fun has_column :: "frame \<Rightarrow> feature \<Rightarrow> bool" where
  "has_column NoColumns f = False"
| "has_column RawEmpty f = (f = F_pclass \<or> f = F_embarked)"
| "has_column (Prepared rows) f = True"

definition get_composition_fig_root :: "frame \<Rightarrow> feature \<Rightarrow> py_error + figure" where
  "get_composition_fig_root data_df feature =
     (if empty data_df then Inr NoData
      else Inr (Histogram (map (feature_col feature) (rows_of data_df))))"

text \<open>
  \<open>get_survival_fig\<close> of \<open>src/app.py\<close> reads the module-level \<open>df\<close>, here the argument
  \<open>df\<close>; \<open>observed\<close> is the library's default for \<open>groupby\<close>, which the call leaves open.
\<close>

definition get_survival_fig_root :: "bool \<Rightarrow> frame \<Rightarrow> frame \<Rightarrow> feature \<Rightarrow> py_error + figure" where
  "get_survival_fig_root observed df data_df feature =
     (if empty data_df then Inr NoData
      else if \<not> has_column df feature then Inl KeyError
      else
        (let survival_rate_df =
               map (\<lambda>(k, m). (k, map_option (\<lambda>v. round_dec 2 (v * 100)) m))
                 (groupby_mean observed feature (rows_of df))
         in Inr (RateBars (sort_rates_desc survival_rate_df))))"

definition FEATURE_OPTIONS_root :: "(string \<times> feature) list" where
  "FEATURE_OPTIONS_root =
     [(''Passenger Class'', F_pclass), (''Sex'', F_sex_label), (''Age Group'', F_age_group),
      (''Embarked Location'', F_embarked), (''Family Size'', F_family_size),
      (''Fare Group'', F_fare_group)]"

definition update_graphs_root ::
  "bool \<Rightarrow> frame \<Rightarrow> frame \<Rightarrow> string \<Rightarrow> py_error + figure \<times> figure \<times> figure" where
  "update_graphs_root observed df dfa selected =
     (case map_of FEATURE_OPTIONS_root selected of
        None \<Rightarrow> Inl TypeError
      | Some feature \<Rightarrow>
          (case get_composition_fig_root df feature of
             Inl e \<Rightarrow> Inl e
           | Inr fig_before \<Rightarrow>
               (case get_composition_fig_root dfa feature of
                  Inl e \<Rightarrow> Inl e
                | Inr fig_after \<Rightarrow>
                    (case get_survival_fig_root observed df df feature of
                       Inl e \<Rightarrow> Inl e
                     | Inr fig_rate \<Rightarrow> Inr (fig_before, fig_after, fig_rate)))))"

subsection \<open>\<open>src/titanic/app.py\<close>\<close>

definition calculate_survival_rate :: "prow list \<Rightarrow> feature \<Rightarrow> (cat \<times> rat option) list" where
  "calculate_survival_rate data group_col =
     map (\<lambda>(k, m). (k, map_option (\<lambda>v. v * 100) m)) (groupby_mean True group_col data)"

definition get_composition_fig_titanic :: "prow list \<Rightarrow> feature \<Rightarrow> figure" where
  "get_composition_fig_titanic data_df feature =
     (let plot_df = value_counts feature data_df
      in CountBars (if feature = F_pclass then map (\<lambda>(k, n). (astype_str k, n)) plot_df
                    else plot_df))"

definition get_survival_fig_titanic :: "prow list \<Rightarrow> feature \<Rightarrow> figure" where
  "get_survival_fig_titanic data_df feature =
     (let survival_df = calculate_survival_rate data_df feature
      in RateBars (if feature = F_pclass then map (\<lambda>(k, v). (astype_str k, v)) survival_df
                   else survival_df))"

definition FEATURE_OPTIONS_titanic :: "(string \<times> feature) list" where
  "FEATURE_OPTIONS_titanic =
     [(''Passenger Class'', F_pclass), (''Sex'', F_sex_label), (''Age Group'', F_age_group),
      (''Fare Quartile'', F_fare_group), (''Family Size'', F_family_size)]"

definition update_graphs_titanic ::
  "prow list \<Rightarrow> prow list \<Rightarrow> string \<Rightarrow> py_error + figure \<times> figure \<times> figure" where
  "update_graphs_titanic df dfa selected =
     (case map_of FEATURE_OPTIONS_titanic selected of
        None \<Rightarrow> Inl TypeError
      | Some feature \<Rightarrow>
          Inr (get_composition_fig_titanic df feature,
               get_composition_fig_titanic dfa feature,
               get_survival_fig_titanic df feature))"

subsection \<open>\<open>src/titanic/graph.py\<close>\<close>

text \<open>
  \<open>data_df['survived'].value_counts()\<close>: the distinct values with their counts, by
  descending count.
\<close>

definition survived_counts :: "passenger list \<Rightarrow> (int \<times> nat) list" where
  "survived_counts data_df =
     (let col = map survived data_df
      in sort_key (\<lambda>(k, n). - int n) (map (\<lambda>k. (k, count_list col k)) (unique col)))"

text \<open>
  \<open>plt.pie(sizes, labels=labels)\<close>: the wedges are the sizes paired with the labels by
  position; the call raises ValueError unless there are as many labels as sizes.
\<close>

definition pie :: "nat list \<Rightarrow> string list \<Rightarrow> py_error + (string \<times> nat) list" where
  "pie x labels = (if length x \<noteq> length labels then Inl ValueError else Inr (zip labels x))"

definition Survival :: "passenger list \<Rightarrow> py_error + (string \<times> nat) list" where
  "Survival data_df =
     (let sizes = map snd (survived_counts data_df);
          labels = [''Did not survive'', ''Survived'']
      in pie sizes labels)"

section \<open>What the specification says, for comparison\<close>

text \<open>
  The survival rate of a category in the words of the specification: 100 times the share of
  the rows of the group that have \<open>survived = 1\<close>.
\<close>

definition rate_percent :: "prow list \<Rightarrow> feature \<Rightarrow> cat \<Rightarrow> rat" where
  "rate_percent t f c =
     100 * of_nat (length (survivors (group_rows f t c))) / of_nat (length (group_rows f t c))"

text \<open>
  The mode in the words of the specification: among the most frequent non-missing values,
  the one met first in row order.
\<close>

definition mode_first_encountered :: "string option list \<Rightarrow> string option" where
  "mode_first_encountered col =
     (let vs = dropna col;
          m = fold max (map (count_list vs) vs) 0
      in List.find (\<lambda>k. count_list vs k = m) vs)"

text \<open>
  The age group in the words of the specification, its last interval closed on the right.
\<close>

definition spec_age_group :: "rat \<Rightarrow> age_label option" where
  "spec_age_group a =
     (if 0 \<le> a \<and> a < 13 then Some Child
      else if 13 \<le> a \<and> a < 19 then Some Teenager
      else if 19 \<le> a \<and> a < 60 then Some Adult
      else if 60 \<le> a \<and> a \<le> 100 then Some Senior
      else None)"

text \<open>Rounding to one decimal with halves going up, the other rule the specification allows.\<close>

definition round_half_up :: "nat \<Rightarrow> rat \<Rightarrow> rat" where
  "round_half_up n x = of_int \<lfloor>x * 10 ^ n + 1 / 2\<rfloor> / 10 ^ n"

text \<open>
  A table whose \<open>fare_group\<close> labels come from one binning: not both a quartile label and
  an equal-width label occur.
\<close>

definition fare_labels_consistent :: "prow list \<Rightarrow> bool" where
  "fare_labels_consistent t =
     (\<not> (list_ex (\<lambda>r. fare_group r \<in> {Some Low, Some Medium, Some High}) t
         \<and> list_ex (\<lambda>r. fare_group r \<in> {Some Q1_Low, Some Q2, Some Q3, Some Q4_High}) t))"

text \<open>The label under which \<open>get_composition_fig\<close> shows a value of the column.\<close>

definition shown :: "feature \<Rightarrow> cat \<Rightarrow> cat" where
  "shown f c = (if f = F_pclass then astype_str c else c)"

section \<open>Example tables\<close>

definition passenger_row ::
  "int \<Rightarrow> int \<Rightarrow> string \<Rightarrow> rat option \<Rightarrow> rat \<Rightarrow> string option \<Rightarrow> passenger" where
  "passenger_row s c sx a f e =
     \<lparr>survived = s, pclass = c, sex = sx, age = a, sibsp = 0, parch = 0, fare = f, embarked = e\<rparr>"

text \<open>
  Five passengers: one aged exactly 100, one without age and port, two ports tied for the
  most frequent with \<open>S\<close> met first.
\<close>

definition example_raw :: "passenger list" where
  "example_raw =
     [passenger_row 1 1 ''male'' (Some 100) 0 (Some ''S''),
      passenger_row 0 3 ''male'' None 1 None,
      passenger_row 0 3 ''female'' (Some 20) 2 (Some ''C''),
      passenger_row 1 2 ''female'' (Some 20) 3 (Some ''C''),
      passenger_row 0 3 ''female'' (Some 20) 4 (Some ''S'')]"

definition example_prepared :: "prow list" where
  "example_prepared =
     [add_columns (passenger_row 1 1 ''male'' (Some 100) 0 (Some ''S'')) None (Some Q1_Low),
      add_columns (passenger_row 0 3 ''male'' (Some 40) 1 (Some ''C'')) (Some Adult) (Some Q1_Low),
      add_columns (passenger_row 0 3 ''female'' (Some 20) 2 (Some ''C'')) (Some Adult) (Some Q2),
      add_columns (passenger_row 1 2 ''female'' (Some 20) 3 (Some ''C'')) (Some Adult) (Some Q3),
      add_columns (passenger_row 0 3 ''female'' (Some 20) 4 (Some ''S'')) (Some Adult) (Some Q4_High)]"

definition example_survivors :: "prow list" where
  "example_survivors =
     [add_columns (passenger_row 1 1 ''male'' (Some 100) 0 (Some ''S'')) None (Some Q1_Low),
      add_columns (passenger_row 1 2 ''female'' (Some 20) 3 (Some ''C'')) (Some Adult) (Some Q3)]"

text \<open>Three passengers who paid the same fare.\<close>

definition example_constant_fare :: "passenger list" where
  "example_constant_fare =
     [passenger_row 1 1 ''male'' (Some 30) 10 (Some ''S''),
      passenger_row 0 3 ''male'' (Some 40) 10 (Some ''S''),
      passenger_row 0 3 ''female'' (Some 20) 10 (Some ''C'')]"

text \<open>The table of the specification's rate example: two men, one of them saved, and one
  woman, saved.\<close>

definition example_rate :: "prow list" where
  "example_rate =
     [add_columns (passenger_row 0 3 ''male'' (Some 30) 7 (Some ''S'')) (Some Adult) (Some Q1_Low),
      add_columns (passenger_row 1 3 ''male'' (Some 30) 8 (Some ''S'')) (Some Adult) (Some Q2),
      add_columns (passenger_row 1 3 ''female'' (Some 30) 9 (Some ''S'')) (Some Adult) (Some Q4_High)]"

text \<open>A table with one passenger, who was not saved.\<close>

definition example_none_saved :: "passenger list" where
  "example_none_saved = [passenger_row 0 3 ''male'' (Some 30) 7 (Some ''S'')]"

section \<open>The example tables evaluated\<close>

lemma script_titanic_example:
  "script_titanic example_raw = Inr (example_prepared, example_survivors)"
  by code_simp

lemma script_root_example:
  "script_root (Some example_raw) = Inr (Prepared example_prepared, Prepared example_survivors)"
  by code_simp

lemma script_titanic_snd:
  "script_titanic raw = Inr (df, dfa) \<Longrightarrow> dfa = survivors df"
  by (auto simp: script_titanic_def split: sum.splits)

lemma script_root_snd:
  "script_root loaded = Inr (df, dfa) \<Longrightarrow> df_after df = Inr dfa"
  by (auto simp: script_root_def Let_def split: sum.splits option.splits if_splits)

section \<open>The survivors table\<close>

lemma count_list_filter:
  "count_list (filter P xs) x = (if P x then count_list xs x else 0)"
  by (induction xs) auto

text \<open>
  Claim C7.  The survivors table holds exactly the rows of the prepared table that have
  \<open>survived = 1\<close>, each as often as the prepared table and in the same order; filtering it
  once more changes nothing; and it is the second table that both scripts produce.
\<close>

theorem survivors_table_exact:
  fixes t :: "('a passenger_scheme) list"
  shows "set (survivors t) = {r \<in> set t. survived r = 1}
    \<and> (\<forall>r. count_list (survivors t) r = (if survived r = 1 then count_list t r else 0))
    \<and> subseq (survivors t) t
    \<and> survivors (survivors t) = survivors t
    \<and> (\<forall>df dfa. script_titanic raw = Inr (df, dfa) \<longrightarrow> dfa = survivors df)
    \<and> (\<forall>df dfa. script_root loaded = Inr (Prepared df, dfa) \<longrightarrow> dfa = Prepared (survivors df))"
proof -
  have "\<forall>df dfa. script_root loaded = Inr (Prepared df, dfa) \<longrightarrow> dfa = Prepared (survivors df)"
    using script_root_snd by fastforce
  moreover have "\<forall>df dfa. script_titanic raw = Inr (df, dfa) \<longrightarrow> dfa = survivors df"
    using script_titanic_snd by blast
  moreover have "\<forall>r. count_list (survivors t) r = (if survived r = 1 then count_list t r else 0)"
    by (simp add: survivors_def count_list_filter)
  ultimately show ?thesis
    by (simp add: survivors_def)
qed

theorem survivors_table_exact_witness:
  "script_titanic example_raw = Inr (example_prepared, example_survivors)
   \<and> script_root (Some example_raw) = Inr (Prepared example_prepared, Prepared example_survivors)
   \<and> example_survivors = survivors example_prepared
   \<and> set example_survivors = {r \<in> set example_prepared. survived r = 1}
   \<and> subseq example_survivors example_prepared"
proof -
  have a: "script_titanic example_raw = Inr (example_prepared, example_survivors)"
    by (rule script_titanic_example)
  have b: "script_root (Some example_raw) = Inr (Prepared example_prepared, Prepared example_survivors)"
    by (rule script_root_example)
  from survivors_table_exact [of example_prepared example_raw "Some example_raw"] a b
  show ?thesis by auto
qed

section \<open>Binning the fares\<close>

lemma qcut4_error: "qcut4 xs labels = Inl e \<Longrightarrow> e = ValueError"
  by (auto simp: qcut4_def bins_to_cuts_def Let_def split: if_splits)

lemma unique_distinct: "distinct xs \<Longrightarrow> unique xs = xs"
  by (simp add: unique_def distinct_remdups_id)

lemma fold_min_le: "fold min xs (a::rat) \<le> a"
proof (induction xs arbitrary: a)
  case Nil
  show ?case by simp
next
  case (Cons x xs)
  have "fold min xs (min x a) \<le> min x a" by (rule Cons.IH)
  then show ?case by simp
qed

lemma fold_max_ge: "(a::rat) \<le> fold max xs a"
proof (induction xs arbitrary: a)
  case Nil
  show ?case by simp
next
  case (Cons x xs)
  have "max x a \<le> fold max xs (max x a)" by (rule Cons.IH)
  then show ?case by simp
qed

lemma list_min_le_max: "list_min xs \<le> list_max xs"
  unfolding list_min_def list_max_def
  using fold_min_le [of xs "hd xs"] fold_max_ge [of "hd xs" xs] by linarith

lemma linspace_3: "linspace a b 3 = [a, a + (b - a) / 3, a + 2 * (b - a) / 3, b]"
  by (simp add: linspace_def upt_rec numeral_eq_Suc)

lemma linspace_3_distinct: "a < b \<Longrightarrow> distinct (linspace a b 3)"
  unfolding linspace_3 by (simp add: field_simps)

lemma linspace_3_adjusted:
  assumes "a < b"
  shows "distinct ((linspace a b 3)[0 := linspace a b 3 ! 0 - (b - a) / 1000])"
  using assms unfolding linspace_3 by (simp add: field_simps)

lemma nbins_to_bins_3:
  assumes "xs \<noteq> []"
  shows "\<exists>bins. nbins_to_bins xs 3 True = Inr bins \<and> distinct bins \<and> length bins = 4"
proof (cases "list_min xs = list_max xs")
  case True
  let ?a = "list_min xs - (if list_min xs \<noteq> 0 then \<bar>list_min xs\<bar> / 1000 else 1 / 1000)"
  let ?b = "list_max xs + (if list_max xs \<noteq> 0 then \<bar>list_max xs\<bar> / 1000 else 1 / 1000)"
  have "?a < list_min xs" by simp
  moreover have "list_max xs < ?b" by simp
  ultimately have "?a < ?b" using True by linarith
  then have "distinct (linspace ?a ?b 3)" by (rule linspace_3_distinct)
  moreover have "length (linspace ?a ?b 3) = 4" by (simp add: linspace_3)
  moreover have "nbins_to_bins xs 3 True = Inr (linspace ?a ?b 3)"
    using assms True by (simp add: nbins_to_bins_def Let_def)
  ultimately show ?thesis by blast
next
  case False
  then have lt: "list_min xs < list_max xs" using list_min_le_max [of xs] by simp
  let ?bins = "linspace (list_min xs) (list_max xs) 3"
  let ?adj = "(list_max xs - list_min xs) / 1000"
  have "nbins_to_bins xs 3 True = Inr (?bins[0 := ?bins ! 0 - ?adj])"
    using assms False by (simp add: nbins_to_bins_def Let_def)
  moreover have "distinct (?bins[0 := ?bins ! 0 - ?adj])"
    using lt by (rule linspace_3_adjusted)
  moreover have "length (?bins[0 := ?bins ! 0 - ?adj]) = 4" by (simp add: linspace_3)
  ultimately show ?thesis by blast
qed

lemma cut_nbins_3:
  assumes "xs \<noteq> []" and "length labels = 3"
  shows "\<exists>g. cut_nbins xs 3 labels = Inr g \<and> length g = length xs"
proof -
  obtain bins where b: "nbins_to_bins xs 3 True = Inr bins" "distinct bins" "length bins = 4"
    using nbins_to_bins_3 [OF assms(1)] by blast
  then show ?thesis
    using assms(2) by (simp add: cut_nbins_def bins_to_cuts_def unique_distinct Let_def)
qed

lemma qcut4_length: "qcut4 xs labels = Inr g \<Longrightarrow> length g = length xs"
  by (auto simp: qcut4_def bins_to_cuts_def Let_def split: if_splits)

lemma fare_group_root_total:
  assumes "fares \<noteq> []"
  shows "\<exists>g. fare_group_root fares = Inr g \<and> length g = length fares"
proof (cases "qcut4 fares quartile_labels")
  case (Inl e)
  then have "e = ValueError" by (rule qcut4_error)
  with Inl have "fare_group_root fares = cut_nbins fares 3 [Low, Medium, High]"
    by (simp add: fare_group_root_def)
  then show ?thesis using cut_nbins_3 [OF assms, of "[Low, Medium, High]"] by simp
next
  case (Inr g)
  then show ?thesis by (simp add: fare_group_root_def qcut4_length)
qed

text \<open>
  Claim C3.  On a table whose fare is constant the quartile binning raises ValueError.
  \<open>src/app.py\<close> catches it and falls back to three equal-width bins, where every row is
  \<open>Medium\<close>; \<open>src/titanic/app.py\<close> has no handler and the script stops with the error.
\<close>

theorem constant_fare_raises_in_titanic_variant:
  "script_titanic example_constant_fare = Inl ValueError
   \<and> fare_group_titanic (map fare example_constant_fare) = Inl ValueError
   \<and> fare_group_root (map fare example_constant_fare) = Inr [Some Medium, Some Medium, Some Medium]"
  by code_simp

section \<open>Empty tables\<close>

text \<open>
  Claim C5.  On the table without rows \<open>src/titanic/app.py\<close> stops with KeyError, raised
  by \<open>mode()[0]\<close>; \<open>src/app.py\<close> stops with KeyError at \<open>df['survived']\<close> when loading
  failed and left the frame without columns, and gives two empty tables on a loaded table
  without rows.
\<close>

theorem empty_table_raises:
  "script_titanic [] = Inl KeyError
   \<and> script_root None = Inl KeyError
   \<and> script_root (Some []) = Inr (RawEmpty, RawEmpty)"
  by code_simp

text \<open>
  Claim C8.  In \<open>src/app.py\<close> both figure functions answer an empty table with the figure
  that has no trace, and raise nothing; the rate function does so whatever the module-level
  table is.
\<close>

theorem empty_table_no_data:
  assumes "empty data_df"
  shows "get_composition_fig_root data_df feature = Inr NoData
    \<and> get_survival_fig_root observed df data_df feature = Inr NoData"
  using assms by (simp add: get_composition_fig_root_def get_survival_fig_root_def)

theorem empty_table_no_data_witness:
  "empty RawEmpty
   \<and> get_composition_fig_root RawEmpty F_age_group = Inr NoData
   \<and> get_survival_fig_root False RawEmpty RawEmpty F_age_group = Inr NoData"
proof -
  have e: "empty RawEmpty" by simp
  from empty_table_no_data [OF e, of F_age_group False RawEmpty] e show ?thesis by simp
qed

section \<open>Age groups\<close>

lemma cut_one_age:
  "cut_one age_bins False age_labels True (Some a) =
     (if 0 \<le> a \<and> a < 13 then Some Child
      else if 13 \<le> a \<and> a < 19 then Some Teenager
      else if 19 \<le> a \<and> a < 60 then Some Adult
      else if 60 \<le> a \<and> a < 100 then Some Senior
      else None)"
  by (simp add: cut_one_def age_bins_def age_labels_def searchsorted_right_def Let_def)

lemma cut_age_eq: "cut_age ages = Inr (map (cut_one age_bins False age_labels True) ages)"
  by (simp add: cut_age_def bins_to_cuts_def unique_distinct age_bins_def age_labels_def Let_def)

lemma zip3_map_mid:
  "(x, y, z) \<in> set (zip xs (zip (map f xs) zs)) \<Longrightarrow> y = f x \<and> x \<in> set xs"
proof (induction xs arbitrary: zs)
  case Nil
  then show ?case by simp
next
  case (Cons a xs)
  then show ?case by (cases zs) auto
qed

lemma impute_rows:
  assumes "impute raw = Inr df2" and "r2 \<in> set df2"
  shows "\<exists>p\<in>set raw. age r2 = fillna (mean (map age raw)) (age p)"
  using assms by (fastforce simp: impute_def Let_def split: sum.splits)

lemma prepare_rows:
  assumes "prepare fare_binning raw = Inr df" and "r \<in> set df"
  shows "\<exists>r2 fg df2. impute raw = Inr df2 \<and> r2 \<in> set df2
           \<and> r = add_columns r2 (cut_one age_bins False age_labels True (age r2)) fg"
proof -
  obtain df2 fgs where i: "impute raw = Inr df2"
    and d: "df = map (\<lambda>(r, ag, fg). add_columns r ag fg)
                  (zip df2 (zip (map (cut_one age_bins False age_labels True) (map age df2)) fgs))"
    using assms(1) by (auto simp: prepare_def cut_age_eq split: sum.splits)
  from assms(2) d obtain r2 ag fg
    where m: "(r2, ag, fg) \<in> set (zip df2 (zip (map (cut_one age_bins False age_labels True \<circ> age) df2) fgs))"
      and r: "r = add_columns r2 ag fg"
    by auto
  from zip3_map_mid [OF m] have "ag = cut_one age_bins False age_labels True (age r2)" "r2 \<in> set df2"
    by simp_all
  with i r show ?thesis by blast
qed

text \<open>
  Claim C2, as the code has it.  Every row of the prepared table has the age group of the
  half-open intervals [0,13), [13,19), [19,60), [60,100) of its age, which is the age of a raw
  row with the mean filled in where it was missing; an age of exactly 100, like any age outside
  the intervals and a missing age, has no age group.
\<close>

theorem age_group_half_open_bins:
  assumes "prepare fare_binning raw = Inr df" and "r \<in> set df"
  shows "age_group r =
           (case age r of
              None \<Rightarrow> None
            | Some a \<Rightarrow>
                if 0 \<le> a \<and> a < 13 then Some Child
                else if 13 \<le> a \<and> a < 19 then Some Teenager
                else if 19 \<le> a \<and> a < 60 then Some Adult
                else if 60 \<le> a \<and> a < 100 then Some Senior
                else None)
         \<and> (\<exists>p\<in>set raw. age r = fillna (mean (map age raw)) (age p))"
proof -
  obtain r2 fg df2 where i: "impute raw = Inr df2" and m: "r2 \<in> set df2"
    and r: "r = add_columns r2 (cut_one age_bins False age_labels True (age r2)) fg"
    using prepare_rows [OF assms] by blast
  have a: "age r = age r2" using r by (simp add: add_columns_def)
  have g: "age_group r = cut_one age_bins False age_labels True (age r2)"
    using r by (simp add: add_columns_def)
  have "\<exists>p\<in>set raw. age r = fillna (mean (map age raw)) (age p)"
    using impute_rows [OF i m] a by simp
  moreover have "age_group r =
           (case age r of
              None \<Rightarrow> None
            | Some a \<Rightarrow>
                if 0 \<le> a \<and> a < 13 then Some Child
                else if 13 \<le> a \<and> a < 19 then Some Teenager
                else if 19 \<le> a \<and> a < 60 then Some Adult
                else if 60 \<le> a \<and> a < 100 then Some Senior
                else None)"
  proof (cases "age r2")
    case None
    then show ?thesis using a g by (simp add: cut_one_def)
  next
    case (Some v)
    then show ?thesis using a g cut_one_age [of v] by simp
  qed
  ultimately show ?thesis by blast
qed

theorem age_group_half_open_bins_witness:
  "prepare fare_group_titanic example_raw = Inr example_prepared
   \<and> example_prepared ! 1 \<in> set example_prepared
   \<and> age (example_prepared ! 1) = Some 40
   \<and> age_group (example_prepared ! 1) = Some Adult"
proof -
  have p: "prepare fare_group_titanic example_raw = Inr example_prepared" by code_simp
  have m: "example_prepared ! 1 \<in> set example_prepared" by (simp add: example_prepared_def)
  have a: "age (example_prepared ! 1) = Some 40" by code_simp
  from age_group_half_open_bins [OF p m] p m a show ?thesis by simp
qed

text \<open>
  The closed last interval of the specification is not what the code computes: in the
  example table the passenger aged exactly 100 is left without an age group by both scripts.
\<close>

theorem age_100_has_no_age_group:
  "script_titanic example_raw = Inr (example_prepared, example_survivors)
   \<and> script_root (Some example_raw) = Inr (Prepared example_prepared, Prepared example_survivors)
   \<and> age (example_prepared ! 0) = Some 100
   \<and> age_group (example_prepared ! 0) = None
   \<and> spec_age_group 100 = Some Senior"
  by code_simp

section \<open>Filling the missing ports\<close>

lemma fold_max_start: "(a::nat) \<le> fold max xs a"
proof (induction xs arbitrary: a)
  case Nil
  show ?case by simp
next
  case (Cons x xs)
  have "max x a \<le> fold max xs (max x a)" by (rule Cons.IH)
  then show ?case by simp
qed

lemma fold_max_upper: "x \<in> set xs \<Longrightarrow> (x::nat) \<le> fold max xs a"
proof (induction xs arbitrary: a)
  case Nil
  then show ?case by simp
next
  case (Cons y ys)
  show ?case
  proof (cases "x = y")
    case True
    have "max y a \<le> fold max ys (max y a)" by (rule fold_max_start)
    then show ?thesis using True by simp
  next
    case False
    with Cons.prems have "x \<in> set ys" by simp
    then show ?thesis using Cons.IH by simp
  qed
qed

lemma fold_max_mem: "fold max xs (a::nat) \<in> insert a (set xs)"
proof (induction xs arbitrary: a)
  case Nil
  show ?case by simp
next
  case (Cons y ys)
  have ih: "fold max ys (max y a) \<in> insert (max y a) (set ys)" by (rule Cons.IH)
  have "max y a = y \<or> max y a = a" by (simp add: max_def)
  then have "insert (max y a) (set ys) \<subseteq> insert a (set (y # ys))" by auto
  with ih have "fold max ys (max y a) \<in> insert a (set (y # ys))" by blast
  then show ?case by (simp only: fold_simps)
qed

lemma count_list_somes: "count_list (dropna col) k = count_list col (Some k)"
  by (induction col) (auto simp: dropna_def split: option.splits)

lemma set_somes: "set (dropna col) = {v. Some v \<in> set col}"
  by (induction col) (auto simp: dropna_def split: option.splits)

lemma set_unique: "set (unique xs) = set xs"
  by (simp add: unique_def)

lemma distinct_unique: "distinct (unique xs)"
  by (simp add: unique_def)

lemma sorted_hd_least: "sorted xs \<Longrightarrow> x \<in> set xs \<Longrightarrow> hd xs \<le> x"
  by (cases xs) auto

lemma mode_properties:
  assumes "Some w \<in> set col"
  shows "\<exists>m ms. mode col = m # ms \<and> Some m \<in> set col
           \<and> (\<forall>v. count_list col (Some v) \<le> count_list col (Some m))
           \<and> (\<forall>v. count_list col (Some v) = count_list col (Some m) \<longrightarrow> m \<le> v)"
proof -
  let ?vs = "dropna col"
  let ?ks = "unique ?vs"
  let ?M = "fold max (map (count_list ?vs) ?ks) 0"
  let ?F = "filter (\<lambda>k. count_list ?vs k = ?M) ?ks"
  have mode_eq: "mode col = sort ?F" by (simp add: mode_def Let_def)
  have w: "w \<in> set ?ks" using assms by (simp add: set_unique set_somes)
  have upper: "count_list ?vs k \<le> ?M" for k
  proof (cases "k \<in> set ?ks")
    case True
    then have "count_list ?vs k \<in> set (map (count_list ?vs) ?ks)" by simp
    then show ?thesis by (rule fold_max_upper)
  next
    case False
    then have "k \<notin> set ?vs" by (simp add: set_unique)
    then show ?thesis by simp
  qed
  have "w \<in> set ?vs" using w by (simp only: set_unique)
  then have "count_list ?vs w \<noteq> 0" by (simp only: count_list_0_iff not_not)
  then have "0 < count_list ?vs w" by simp
  then have "0 < ?M" using upper [of w] by linarith
  moreover have "?M \<in> insert 0 (set (map (count_list ?vs) ?ks))" by (rule fold_max_mem)
  ultimately have "?M \<in> set (map (count_list ?vs) ?ks)" by auto
  then obtain k where k: "k \<in> set ?ks" "count_list ?vs k = ?M" by auto
  then have ne: "sort ?F \<noteq> []" by (auto simp: filter_empty_conv simp flip: set_empty)
  then obtain m ms where ms: "sort ?F = m # ms" by (cases "sort ?F") auto
  then have "m \<in> set (sort ?F)" by simp
  then have m: "m \<in> set ?ks" "count_list ?vs m = ?M" by auto
  have least: "m \<le> v" if "v \<in> set ?F" for v
  proof -
    have "hd (sort ?F) \<le> v" using that by (intro sorted_hd_least) simp_all
    then show ?thesis using ms by simp
  qed
  have "Some m \<in> set col" using m(1) by (simp add: set_unique set_somes)
  moreover have "\<forall>v. count_list col (Some v) \<le> count_list col (Some m)"
    using upper m(2) by (simp add: count_list_somes)
  moreover have "\<forall>v. count_list col (Some v) = count_list col (Some m) \<longrightarrow> m \<le> v"
  proof (intro allI impI)
    fix v
    assume "count_list col (Some v) = count_list col (Some m)"
    then have c: "count_list ?vs v = ?M" using m(2) by (simp add: count_list_somes)
    with \<open>0 < ?M\<close> have "v \<in> set ?vs" by (metis count_list_0_iff less_numeral_extra(3))
    then have "v \<in> set ?F" using c by (simp add: set_unique)
    then show "m \<le> v" by (rule least)
  qed
  ultimately show ?thesis using mode_eq ms by simp
qed

text \<open>
  Claim C9, as the code has it.  When some port is known, imputation succeeds and fills every
  missing port with one value, leaving the known ports alone; that value is a most frequent
  known port, and among the most frequent ports it is the least in the order of strings, not
  the one met first.
\<close>

theorem embarked_filled_with_least_mode:
  assumes "\<exists>r\<in>set df. embarked r \<noteq> None"
  shows "\<exists>m df'. impute df = Inr df'
           \<and> map embarked df' = map (\<lambda>r. Some (case embarked r of None \<Rightarrow> m | Some v \<Rightarrow> v)) df
           \<and> Some m \<in> set (map embarked df)
           \<and> (\<forall>v. count_list (map embarked df) (Some v) \<le> count_list (map embarked df) (Some m))
           \<and> (\<forall>v. count_list (map embarked df) (Some v) = count_list (map embarked df) (Some m)
                  \<longrightarrow> m \<le> v)"
proof -
  let ?df1 = "map (\<lambda>r. r\<lparr>age := fillna (mean (map age df)) (age r)\<rparr>) df"
  have col: "map embarked ?df1 = map embarked df" by simp
  from assms obtain w where "Some w \<in> set (map embarked df)" by force
  from mode_properties [OF this] obtain m ms where
    mo: "mode (map embarked df) = m # ms" and
    p: "Some m \<in> set (map embarked df)"
       "\<forall>v. count_list (map embarked df) (Some v) \<le> count_list (map embarked df) (Some m)"
       "\<forall>v. count_list (map embarked df) (Some v) = count_list (map embarked df) (Some m) \<longrightarrow> m \<le> v"
    by blast
  let ?df' = "map (\<lambda>r. r\<lparr>embarked := fillna (Some m) (embarked r)\<rparr>) ?df1"
  have "impute df = Inr ?df'"
    unfolding impute_def Let_def col using mo by (simp add: first_label_def)
  moreover have "map embarked ?df' = map (\<lambda>r. Some (case embarked r of None \<Rightarrow> m | Some v \<Rightarrow> v)) df"
    by (simp add: fillna_def split: option.splits)
  ultimately show ?thesis using p by blast
qed

theorem embarked_filled_with_least_mode_witness:
  "(\<exists>r\<in>set example_raw. embarked r \<noteq> None)
   \<and> (\<exists>m df'. impute example_raw = Inr df'
        \<and> map embarked df' = map (\<lambda>r. Some (case embarked r of None \<Rightarrow> m | Some v \<Rightarrow> v)) example_raw
        \<and> Some m \<in> set (map embarked example_raw)
        \<and> (\<forall>v. count_list (map embarked example_raw) (Some v) \<le> count_list (map embarked example_raw) (Some m))
        \<and> (\<forall>v. count_list (map embarked example_raw) (Some v) = count_list (map embarked example_raw) (Some m)
                  \<longrightarrow> m \<le> v))"
proof -
  have h: "\<exists>r\<in>set example_raw. embarked r \<noteq> None"
    by (simp add: example_raw_def passenger_row_def)
  from embarked_filled_with_least_mode [OF h] h show ?thesis by blast
qed

text \<open>
  In the example table \<open>S\<close> and \<open>C\<close> are tied and \<open>S\<close> comes first in row order, yet the
  missing port is filled with \<open>C\<close>.
\<close>

theorem tie_not_broken_by_first_encountered:
  "mode_first_encountered (map embarked example_raw) = Some ''S''
   \<and> first_label (mode (map embarked example_raw)) = Inr ''C''
   \<and> script_titanic example_raw = Inr (example_prepared, example_survivors)
   \<and> map embarked example_raw = [Some ''S'', None, Some ''C'', Some ''C'', Some ''S'']
   \<and> map embarked example_prepared = [Some ''S'', Some ''C'', Some ''C'', Some ''C'', Some ''S'']"
  by code_simp

section \<open>The survival pie chart\<close>

lemma count_list_map: "count_list (map f xs) v = length (filter (\<lambda>x. f x = v) xs)"
  by (induction xs) auto

lemma length_2_pair: "length xs = 2 \<Longrightarrow> \<exists>x y. xs = [x, y]"
  by (cases xs; cases "tl xs") auto

lemma length_1_single: "length xs = 1 \<Longrightarrow> \<exists>x. xs = [x]"
  by (cases xs) auto

lemma distinct_pair:
  assumes "distinct xs" and "set xs = {a, b}" and "a \<noteq> b"
  shows "xs = [a, b] \<or> xs = [b, a]"
proof -
  have "length xs = card (set xs)" using assms(1) by (simp add: distinct_card)
  also have "\<dots> = 2" using assms(2,3) by simp
  finally obtain x y where xy: "xs = [x, y]" using length_2_pair by blast
  with assms(2) have "{x, y} = {a, b}" by simp
  then have "x = a \<and> y = b \<or> x = b \<and> y = a" by (simp add: doubleton_eq_iff)
  then show ?thesis using xy by blast
qed

lemma distinct_single:
  assumes "distinct xs" and "set xs = {a}"
  shows "xs = [a]"
proof -
  have "length xs = card (set xs)" using assms(1) by (simp add: distinct_card)
  also have "\<dots> = 1" using assms(2) by simp
  finally obtain x where "xs = [x]" using length_1_single by blast
  with assms(2) show ?thesis by simp
qed

lemma sizes_of_pair:
  "map snd (sort_key (\<lambda>(k, n). - int n) [(a, m), (b, n)]) = [max m n, min m n]"
  by (simp add: max_def min_def)

lemma sizes_two_outcomes:
  assumes "unique col = [a, b]"
  shows "map snd (sort_key (\<lambda>(k, n). - int n) (map (\<lambda>k. (k, count_list col k)) (unique col)))
           = [max (count_list col a) (count_list col b), min (count_list col a) (count_list col b)]"
  unfolding assms using sizes_of_pair [of a "count_list col a" b "count_list col b"] by simp

lemma Survival_both:
  assumes "unique (map survived t) = [a, b]"
  shows "Survival t =
           Inr [(''Did not survive'',
                 max (count_list (map survived t) a) (count_list (map survived t) b)),
                (''Survived'',
                 min (count_list (map survived t) a) (count_list (map survived t) b))]"
  unfolding Survival_def survived_counts_def pie_def Let_def
  by (simp only: sizes_two_outcomes [OF assms]) simp

lemma Survival_one:
  assumes "unique (map survived t) = [a]"
  shows "Survival t = Inl ValueError"
  unfolding Survival_def survived_counts_def pie_def Let_def assms by simp

text \<open>
  Claim C10, as the code has it.  On a table of 0/1 outcomes in which both outcomes occur,
  the chart has two slices: "Did not survive" carries the larger of the two counts and
  "Survived" the smaller, so the first equals the number of rows with \<open>survived = 0\<close> exactly
  when those are at least as many as the rows with \<open>survived = 1\<close>.  When only one outcome
  occurs, or the table is empty, there are fewer sizes than labels and the call raises
  ValueError.
\<close>

theorem Survival_slices:
  assumes "\<forall>r\<in>set t. survived r = 0 \<or> survived r = 1"
  shows "Survival t =
           (if (\<exists>r\<in>set t. survived r = 0) \<and> (\<exists>r\<in>set t. survived r = 1)
            then Inr [(''Did not survive'',
                       max (length (filter (\<lambda>r. survived r = 0) t))
                           (length (filter (\<lambda>r. survived r = 1) t))),
                      (''Survived'',
                       min (length (filter (\<lambda>r. survived r = 0) t))
                           (length (filter (\<lambda>r. survived r = 1) t)))]
            else Inl ValueError)"
proof -
  let ?col = "map survived t"
  let ?n0 = "length (filter (\<lambda>r. survived r = 0) t)"
  let ?n1 = "length (filter (\<lambda>r. survived r = 1) t)"
  have c0: "count_list ?col 0 = ?n0" and c1: "count_list ?col 1 = ?n1"
    by (simp_all add: count_list_map)
  have sub: "set ?col \<subseteq> {0, 1}" using assms by auto
  have du: "distinct (unique ?col)" by (rule distinct_unique)
  have su: "set (unique ?col) = set ?col" by (rule set_unique)
  have m0: "(\<exists>r\<in>set t. survived r = 0) \<longleftrightarrow> 0 \<in> set ?col" by force
  have m1: "(\<exists>r\<in>set t. survived r = 1) \<longleftrightarrow> 1 \<in> set ?col" by force
  consider (both) "0 \<in> set ?col" "1 \<in> set ?col"
    | (only0) "0 \<in> set ?col" "1 \<notin> set ?col"
    | (only1) "0 \<notin> set ?col" "1 \<in> set ?col"
    | (none) "0 \<notin> set ?col" "1 \<notin> set ?col"
    by blast
  then show ?thesis
  proof cases
    case both
    then have "set ?col = {0, 1}" using sub by auto
    then have "set (unique ?col) = {0, 1}" by (simp only: su)
    then have "unique ?col = [0, 1] \<or> unique ?col = [1, 0]"
      using du distinct_pair [of "unique ?col" 0 1] by simp
    then have "Survival t = Inr [(''Did not survive'', max ?n0 ?n1), (''Survived'', min ?n0 ?n1)]"
    proof
      assume "unique ?col = [0, 1]"
      from Survival_both [OF this] show ?thesis by (simp only: c0 c1)
    next
      assume "unique ?col = [1, 0]"
      from Survival_both [OF this] show ?thesis by (simp only: c0 c1 max.commute min.commute)
    qed
    then show ?thesis using both by (simp only: m0 m1 simp_thms if_True)
  next
    case only0
    then have "set ?col = {0}" using sub by auto
    then have "set (unique ?col) = {0}" by (simp only: su)
    with du have "unique ?col = [0]" by (rule distinct_single)
    then have "Survival t = Inl ValueError" by (rule Survival_one)
    then show ?thesis using only0 by (simp only: m0 m1 simp_thms if_False)
  next
    case only1
    then have "set ?col = {1}" using sub by auto
    then have "set (unique ?col) = {1}" by (simp only: su)
    with du have "unique ?col = [1]" by (rule distinct_single)
    then have "Survival t = Inl ValueError" by (rule Survival_one)
    then show ?thesis using only1 by (simp only: m0 m1 simp_thms if_False)
  next
    case none
    have "t = []"
    proof (cases t)
      case Nil
      then show ?thesis .
    next
      case (Cons r rs)
      then have "survived r \<in> set ?col" by simp
      moreover from Cons assms have "survived r = 0 \<or> survived r = 1" by simp
      ultimately show ?thesis using none by metis
    qed
    then have "Survival t = Inl ValueError"
      by (simp add: Survival_def survived_counts_def pie_def unique_def)
    then show ?thesis using none by (simp only: m0 m1 simp_thms if_False)
  qed
qed

theorem Survival_slices_witness:
  "list_all (\<lambda>r. survived r = 0 \<or> survived r = 1) example_raw
   \<and> Survival example_raw = Inr [(''Did not survive'', 3), (''Survived'', 2)]
   \<and> length (filter (\<lambda>r. survived r = 0) example_raw) = 3
   \<and> length (filter (\<lambda>r. survived r = 1) example_raw) = 2"
proof -
  have h: "\<forall>r\<in>set example_raw. survived r = 0 \<or> survived r = 1"
    by (simp add: example_raw_def passenger_row_def)
  have n: "length (filter (\<lambda>r. survived r = 0) example_raw) = 3"
      "length (filter (\<lambda>r. survived r = 1) example_raw) = 2"
    by (simp_all add: example_raw_def passenger_row_def)
  have b: "(\<exists>r\<in>set example_raw. survived r = 0) \<and> (\<exists>r\<in>set example_raw. survived r = 1)"
    by (simp add: example_raw_def passenger_row_def)
  have l: "list_all (\<lambda>r. survived r = 0 \<or> survived r = 1) example_raw"
    using h by (simp only: list_all_iff)
  have "Survival example_raw = Inr [(''Did not survive'', 3), (''Survived'', 2)]"
    using Survival_slices [OF h] b by (simp only: n if_True simp_thms max_def min_def) simp
  with l n show ?thesis by blast
qed

text \<open>
  On the table with one passenger, who was not saved, no slice is drawn at all, although the
  rows with \<open>survived = 0\<close> are at least as many as the others.
\<close>

theorem Survival_raises_on_one_outcome:
  "example_none_saved \<noteq> []
   \<and> length (filter (\<lambda>r. survived r = 1) example_none_saved)
       \<le> length (filter (\<lambda>r. survived r = 0) example_none_saved)
   \<and> Survival example_none_saved = Inl ValueError"
  by code_simp

section \<open>Grouping\<close>

lemma somes_map_Some: "dropna (map (\<lambda>x. Some (g x)) xs) = map g xs"
  by (induction xs) (auto simp: dropna_def)

lemma length_somes: "length (dropna xs) = length (filter (\<lambda>x. x \<noteq> None) xs)"
  by (induction xs) (auto simp: dropna_def split: option.splits)

lemma categories_distinct: "categories f t = Some cs \<Longrightarrow> distinct cs"
  by (cases f) (auto simp: categories_def split: if_splits)

lemma categories_not_pclass: "categories f t = Some cs \<Longrightarrow> f \<noteq> F_pclass"
  by (cases f) (auto simp: categories_def)

lemma set_sort_key: "set (sort_key k xs) = set xs"
  by simp

lemma distinct_map_sort_key: "distinct (map g (sort_key k xs)) = distinct (map g xs)"
  by (simp add: distinct_map)

lemma group_keys_distinct: "distinct (group_keys observed f t)"
  by (auto simp: group_keys_def Let_def distinct_unique dest: categories_distinct
      split: option.splits)

lemma observed_in_col:
  assumes "r \<in> set t" and "feature_col f r = Some c"
  shows "c \<in> set (dropna (map (feature_col f) t))"
proof -
  have "Some c \<in> set (map (feature_col f) t)" using assms by force
  then show ?thesis by (simp only: set_somes mem_Collect_eq)
qed

lemma observed_in_categories:
  assumes "r \<in> set t" and "feature_col f r = Some c" and "fare_labels_consistent t"
    and "categories f t = Some cs"
  shows "c \<in> set cs"
proof (cases f)
  case F_age_group
  then obtain a where "c = AgeCat a" using assms(2) by auto
  moreover have "a \<in> set [Child, Teenager, Adult, Senior]" by (cases a) simp_all
  ultimately show ?thesis using assms(4) F_age_group by (auto simp: categories_def)
next
  case F_fare_group
  then obtain l where l: "c = FareCat l" "fare_group r = Some l" using assms(2) by auto
  show ?thesis
  proof (cases "list_ex (\<lambda>r. fare_group r \<in> {Some Low, Some Medium, Some High}) t")
    case True
    then have "\<not> list_ex (\<lambda>r. fare_group r \<in> {Some Q1_Low, Some Q2, Some Q3, Some Q4_High}) t"
      using assms(3) by (simp add: fare_labels_consistent_def)
    then have "fare_group r \<notin> {Some Q1_Low, Some Q2, Some Q3, Some Q4_High}"
      using assms(1) by (auto simp: list_ex_iff)
    then have "l \<in> set [Low, Medium, High]" using l(2) by (cases l) simp_all
    moreover have "cs = map FareCat [Low, Medium, High]"
      using assms(4) F_fare_group True by (simp add: categories_def)
    ultimately show ?thesis using l(1) by auto
  next
    case False
    then have "fare_group r \<notin> {Some Low, Some Medium, Some High}"
      using assms(1) by (auto simp: list_ex_iff)
    then have "l \<in> set [Q1_Low, Q2, Q3, Q4_High]" using l(2) by (cases l) simp_all
    moreover have "cs = map FareCat [Q1_Low, Q2, Q3, Q4_High]"
      using assms(4) F_fare_group False by (simp add: categories_def)
    ultimately show ?thesis using l(1) by auto
  qed
qed (use assms(4) in \<open>simp_all add: categories_def\<close>)

lemma observed_in_group_keys:
  assumes "r \<in> set t" and "feature_col f r = Some c" and "fare_labels_consistent t"
  shows "c \<in> set (group_keys observed f t)"
proof (cases "categories f t")
  case None
  then show ?thesis
    using observed_in_col [OF assms(1,2)] by (simp add: group_keys_def Let_def set_unique)
next
  case (Some cs)
  have "c \<in> set cs" using assms Some by (rule observed_in_categories)
  then show ?thesis
    using Some observed_in_col [OF assms(1,2)] by (simp add: group_keys_def Let_def)
qed

lemma sum_survived_01:
  assumes "\<forall>r\<in>set g. survived r = 0 \<or> survived r = 1"
  shows "sum_list (map (\<lambda>r. rat_of_int (survived r)) g) = of_nat (length (survivors g))"
  using assms by (induction g) (auto simp: survivors_def)

lemma mean_map_Some:
  "mean (map (\<lambda>x. Some (g x)) xs)
     = (if xs = [] then None else Some (sum_list (map g xs) / of_nat (length xs)))"
  unfolding mean_def somes_map_Some by simp

lemma group_mean:
  assumes "\<forall>r\<in>set t. survived r = 0 \<or> survived r = 1" and "group_rows f t c \<noteq> []"
  shows "mean (map (\<lambda>r. Some (of_int (survived r))) (group_rows f t c))
           = Some (rate_percent t f c / 100)"
proof -
  let ?g = "group_rows f t c"
  have "\<forall>r\<in>set ?g. survived r = 0 \<or> survived r = 1"
    using assms(1) by (simp add: group_rows_def)
  then have "sum_list (map (\<lambda>r. rat_of_int (survived r)) ?g) = of_nat (length (survivors ?g))"
    by (rule sum_survived_01)
  then show ?thesis
    using assms(2) by (simp only: mean_map_Some rate_percent_def) simp
qed

lemma groupby_mean_keys: "map fst (groupby_mean observed f t) = group_keys observed f t"
  by (simp add: groupby_mean_def comp_def)

lemma groupby_mean_entry:
  assumes "\<forall>r\<in>set t. survived r = 0 \<or> survived r = 1" and "fare_labels_consistent t"
    and "r \<in> set t" and "feature_col f r = Some c"
  shows "(c, Some (rate_percent t f c / 100)) \<in> set (groupby_mean observed f t)"
proof -
  have k: "c \<in> set (group_keys observed f t)"
    using assms(3,4,2) by (rule observed_in_group_keys)
  have "r \<in> set (group_rows f t c)" using assms(3,4) by (simp add: group_rows_def)
  then have "group_rows f t c \<noteq> []" by auto
  with assms(1) have "mean (map (\<lambda>r. Some (of_int (survived r))) (group_rows f t c))
      = Some (rate_percent t f c / 100)" by (rule group_mean)
  with k show ?thesis by (force simp: groupby_mean_def)
qed

lemma calculate_survival_rate_keys:
  "map fst (calculate_survival_rate t f) = group_keys True f t"
  by (simp add: calculate_survival_rate_def comp_def case_prod_unfold groupby_mean_keys [symmetric])

lemma calculate_survival_rate_entry:
  assumes "\<forall>r\<in>set t. survived r = 0 \<or> survived r = 1" and "fare_labels_consistent t"
    and "r \<in> set t" and "feature_col f r = Some c"
  shows "map_of (calculate_survival_rate t f) c = Some (Some (rate_percent t f c))"
proof -
  have "(c, Some (rate_percent t f c / 100)) \<in> set (groupby_mean True f t)"
    using assms by (rule groupby_mean_entry)
  then have "(c, Some (rate_percent t f c)) \<in> set (calculate_survival_rate t f)"
    by (force simp: calculate_survival_rate_def)
  moreover have "distinct (map fst (calculate_survival_rate t f))"
    by (simp only: calculate_survival_rate_keys group_keys_distinct)
  ultimately show ?thesis by simp
qed

section \<open>The survival rates\<close>

lemma set_sort_rates_desc: "set (sort_rates_desc xs) = set xs"
  by (auto simp: sort_rates_desc_def)

lemma distinct_fst_sort_rates_desc:
  assumes "distinct (map fst xs)"
  shows "distinct (map fst (sort_rates_desc xs))"
proof -
  let ?A = "filter (\<lambda>(k, v). v \<noteq> None) xs"
  let ?B = "filter (\<lambda>(k, v). v = None) xs"
  have a: "distinct (map fst ?A)" and b: "distinct (map fst ?B)"
    using assms by (simp_all add: distinct_map_filter)
  have "fst ` set ?A \<inter> fst ` set ?B = {}"
  proof (rule ccontr)
    assume "fst ` set ?A \<inter> fst ` set ?B \<noteq> {}"
    then obtain k where "k \<in> fst ` set ?A" "k \<in> fst ` set ?B" by blast
    then obtain v where "(k, Some v) \<in> set xs" "(k, None) \<in> set xs" by auto
    with assms have "Some v = None" by (rule eq_key_imp_eq_value)
    then show False by simp
  qed
  with a b show ?thesis
    by (simp add: sort_rates_desc_def distinct_map_sort_key)
qed

lemma root_rates:
  assumes "\<not> empty data_df"
  shows "get_survival_fig_root observed (Prepared t) data_df f =
           Inr (RateBars (sort_rates_desc
             (map (\<lambda>(k, m). (k, map_option (\<lambda>v. round_dec 2 (v * 100)) m))
                (groupby_mean observed f t))))"
  using assms by (simp add: get_survival_fig_root_def)

lemma root_rate_bar:
  assumes "\<forall>r\<in>set t. survived r = 0 \<or> survived r = 1" and "fare_labels_consistent t"
    and "r \<in> set t" and "feature_col f r = Some c" and "\<not> empty data_df"
  shows "\<exists>bars. get_survival_fig_root observed (Prepared t) data_df f = Inr (RateBars bars)
           \<and> map_of bars c = Some (Some (round_dec 2 (rate_percent t f c)))"
proof -
  let ?xs = "map (\<lambda>(k, m). (k, map_option (\<lambda>v. round_dec 2 (v * 100)) m))
                (groupby_mean observed f t)"
  have "(c, Some (rate_percent t f c / 100)) \<in> set (groupby_mean observed f t)"
    using assms(1-4) by (rule groupby_mean_entry)
  then have "(c, Some (round_dec 2 (rate_percent t f c / 100 * 100))) \<in> set ?xs"
    by force
  then have "(c, Some (round_dec 2 (rate_percent t f c))) \<in> set (sort_rates_desc ?xs)"
    by (simp add: set_sort_rates_desc)
  moreover have "map fst ?xs = group_keys observed f t"
    by (simp add: comp_def case_prod_unfold groupby_mean_keys [symmetric])
  then have "distinct (map fst (sort_rates_desc ?xs))"
    by (intro distinct_fst_sort_rates_desc) (simp only: group_keys_distinct)
  ultimately have "map_of (sort_rates_desc ?xs) c = Some (Some (round_dec 2 (rate_percent t f c)))"
    by simp
  then show ?thesis using root_rates [OF assms(5)] by blast
qed

text \<open>
  Claim C4, as the code has it.  On a table of 0/1 outcomes, for every observed category the
  rate operation of \<open>src/titanic/app.py\<close> returns exactly 100 times the share of survivors of
  the group, not rounded, and the rate figure of \<open>src/app.py\<close> shows that value rounded to two
  decimals, halves to even; no value is rounded to one decimal, which only the text template
  of the chart does.
\<close>

theorem survival_rate_values:
  assumes "\<forall>r\<in>set t. survived r = 0 \<or> survived r = 1" and "fare_labels_consistent t"
    and "r \<in> set t" and "feature_col f r = Some c" and "\<not> empty data_df"
  shows "map_of (calculate_survival_rate t f) c = Some (Some (rate_percent t f c))
    \<and> (\<exists>bars. get_survival_fig_root observed (Prepared t) data_df f = Inr (RateBars bars)
          \<and> map_of bars c = Some (Some (round_dec 2 (rate_percent t f c))))"
  using calculate_survival_rate_entry [OF assms(1-4)] root_rate_bar [OF assms] by blast

theorem survival_rate_values_witness:
  "list_all (\<lambda>r. survived r = 0 \<or> survived r = 1) example_rate
   \<and> fare_labels_consistent example_rate
   \<and> example_rate ! 0 \<in> set example_rate
   \<and> feature_col F_sex_label (example_rate ! 0) = Some (StrCat ''Male'')
   \<and> \<not> empty (Prepared example_rate)
   \<and> rate_percent example_rate F_sex_label (StrCat ''Male'') = 50
   \<and> map_of (calculate_survival_rate example_rate F_sex_label) (StrCat ''Male'') = Some (Some 50)
   \<and> map_of (calculate_survival_rate example_rate F_sex_label) (StrCat ''Female'') = Some (Some 100)"
proof -
  have l: "list_all (\<lambda>r. survived r = 0 \<or> survived r = 1) example_rate" by code_simp
  then have h1: "\<forall>r\<in>set example_rate. survived r = 0 \<or> survived r = 1"
    by (simp only: list_all_iff)
  have h2: "fare_labels_consistent example_rate" by code_simp
  have h3: "example_rate ! 0 \<in> set example_rate" by (simp add: example_rate_def)
  have h4: "feature_col F_sex_label (example_rate ! 0) = Some (StrCat ''Male'')" by code_simp
  have h5: "\<not> empty (Prepared example_rate)" by code_simp
  have v: "rate_percent example_rate F_sex_label (StrCat ''Male'') = 50" by code_simp
  have w: "map_of (calculate_survival_rate example_rate F_sex_label) (StrCat ''Female'') = Some (Some 100)"
    by code_simp
  from survival_rate_values [OF h1 h2 h3 h4 h5, of False]
  have "map_of (calculate_survival_rate example_rate F_sex_label) (StrCat ''Male'') = Some (Some 50)"
    by (simp only: v)
  with l h2 h3 h4 h5 v w show ?thesis by blast
qed

text \<open>
  In the example table one of the three women was saved: the rate operation returns 100/3,
  and the rate figure of \<open>src/app.py\<close> shows 33.33; rounding to one decimal, by either rule,
  would give 33.3.
\<close>

theorem rate_not_rounded_to_one_decimal:
  "map_of (calculate_survival_rate example_prepared F_sex_label) (StrCat ''Female'') = Some (Some (100 / 3))
   \<and> get_survival_fig_root False (Prepared example_prepared) (Prepared example_prepared) F_sex_label
       = Inr (RateBars [(StrCat ''Male'', Some 50), (StrCat ''Female'', Some (3333 / 100))])
   \<and> round_dec 1 (100 / 3) = 333 / 10
   \<and> round_half_up 1 (100 / 3) = 333 / 10
   \<and> (100 / 3 :: rat) \<noteq> 333 / 10
   \<and> (3333 / 100 :: rat) \<noteq> 333 / 10"
  by code_simp

section \<open>Composition\<close>

lemma sum_list_insort_key:
  "sum_list (map g (insort_key k x xs)) = g x + sum_list (map g xs)" for g :: "'a \<Rightarrow> nat"
  by (induction xs) auto

lemma sum_list_sort_key:
  "sum_list (map g (sort_key k xs)) = sum_list (map g xs)" for g :: "'a \<Rightarrow> nat"
  by (induction xs) (auto simp: sum_list_insort_key)

lemma length_filter_disj:
  assumes "\<forall>x\<in>set xs. \<not> (P x \<and> Q x)"
  shows "length (filter (\<lambda>x. P x \<or> Q x) xs) = length (filter P xs) + length (filter Q xs)"
  using assms by (induction xs) auto

lemma sum_counts:
  assumes "distinct ks"
  shows "sum_list (map (count_list col) ks) = length (filter (\<lambda>x. x \<in> set ks) col)"
  using assms
proof (induction ks)
  case Nil
  show ?case by simp
next
  case (Cons k ks)
  have "length (filter (\<lambda>x. x = k \<or> x \<in> set ks) col)
          = length (filter (\<lambda>x. x = k) col) + length (filter (\<lambda>x. x \<in> set ks) col)"
    using Cons.prems by (intro length_filter_disj) auto
  moreover have "count_list col k = length (filter (\<lambda>x. x = k) col)"
    by (induction col) auto
  ultimately show ?case using Cons by simp
qed

lemma count_list_col:
  "count_list (dropna (map (feature_col f) t)) k = length (group_rows f t k)"
  by (simp only: count_list_somes count_list_map group_rows_def)

lemma value_counts_eq:
  "value_counts f t =
     sort_key (\<lambda>(k, n). - int n) (map (\<lambda>k. (k, length (group_rows f t k))) (count_keys f t))"
  by (simp only: value_counts_def Let_def count_list_col)

lemma count_keys_distinct: "distinct (count_keys f t)"
  by (auto simp: count_keys_def distinct_unique dest: categories_distinct split: option.splits)

lemma col_in_count_keys:
  assumes "fare_labels_consistent t"
  shows "set (dropna (map (feature_col f) t)) \<subseteq> set (count_keys f t)"
proof
  fix c
  assume "c \<in> set (dropna (map (feature_col f) t))"
  then have "Some c \<in> set (map (feature_col f) t)" by (simp only: set_somes mem_Collect_eq)
  then obtain r where r: "r \<in> set t" "feature_col f r = Some c" by auto
  show "c \<in> set (count_keys f t)"
  proof (cases "categories f t")
    case None
    then show ?thesis
      using observed_in_col [OF r] by (simp add: count_keys_def set_unique)
  next
    case (Some cs)
    have "c \<in> set cs" using r assms Some by (rule observed_in_categories)
    then show ?thesis using Some by (simp add: count_keys_def)
  qed
qed

lemma value_counts_sum:
  assumes "fare_labels_consistent t"
  shows "sum_list (map snd (value_counts f t)) = length (filter (\<lambda>r. feature_col f r \<noteq> None) t)"
proof -
  let ?col = "dropna (map (feature_col f) t)"
  have "sum_list (map snd (value_counts f t)) = sum_list (map (count_list ?col) (count_keys f t))"
    by (simp add: value_counts_def sum_list_sort_key comp_def)
  also have "\<dots> = length (filter (\<lambda>x. x \<in> set (count_keys f t)) ?col)"
    using count_keys_distinct by (rule sum_counts)
  also have "\<dots> = length ?col"
    using col_in_count_keys [OF assms, of f] by (simp add: subset_code(1))
  also have "\<dots> = length (filter (\<lambda>r. feature_col f r \<noteq> None) t)"
    by (simp add: length_somes length_filter_map comp_def)
  finally show ?thesis .
qed

lemma shown_inj_on_keys: "inj_on (shown f) (set (count_keys f t))"
proof (cases "f = F_pclass")
  case True
  have "set (count_keys F_pclass t) \<subseteq> range IntCat"
    by (auto simp: count_keys_def categories_def set_unique set_somes)
  moreover have "inj_on astype_str (range IntCat)" by (auto simp: inj_on_def)
  ultimately have "inj_on astype_str (set (count_keys F_pclass t))" by (rule inj_on_subset [rotated])
  then show ?thesis using True by (simp add: shown_def [abs_def])
next
  case False
  then show ?thesis by (simp add: shown_def [abs_def])
qed

lemma composition_bars:
  "get_composition_fig_titanic t f =
     CountBars (map (\<lambda>(k, n). (shown f k, n)) (value_counts f t))"
  by (simp add: get_composition_fig_titanic_def shown_def Let_def)

lemma bars_set:
  "set (map (\<lambda>(k, n). (shown f k, n)) (value_counts f t))
     = (\<lambda>k. (shown f k, length (group_rows f t k))) ` set (count_keys f t)"
  by (auto simp: value_counts_eq image_iff)

lemma bars_distinct:
  "distinct (map fst (map (\<lambda>(k, n). (shown f k, n)) (value_counts f t)))"
proof -
  let ?xs = "map (\<lambda>k. (k, length (group_rows f t k))) (count_keys f t)"
  have e1: "map fst (map (\<lambda>(k, n). (shown f k, n)) (value_counts f t))
          = map (\<lambda>p. shown f (fst p)) (value_counts f t)"
    by (simp add: case_prod_unfold)
  have e2: "distinct (map (\<lambda>p. shown f (fst p)) (value_counts f t))
          = distinct (map (\<lambda>p. shown f (fst p)) ?xs)"
    unfolding value_counts_eq by (rule distinct_map_sort_key)
  have e3: "map (\<lambda>p. shown f (fst p)) ?xs = map (shown f) (count_keys f t)"
    by simp
  have e4: "distinct (map (shown f) (count_keys f t))"
    using count_keys_distinct shown_inj_on_keys by (simp only: distinct_map simp_thms)
  show ?thesis unfolding e1 e2 e3 by (rule e4)
qed

lemma count_keys_plain:
  assumes "categories f t = None"
  shows "set (count_keys f t) = {k. \<exists>r\<in>set t. feature_col f r = Some k}"
proof -
  have "set (count_keys f t) = {k. Some k \<in> set (map (feature_col f) t)}"
    using assms by (simp add: count_keys_def set_unique set_somes)
  also have "\<dots> = {k. \<exists>r\<in>set t. feature_col f r = Some k}"
    by force
  finally show ?thesis .
qed

lemma group_rows_observed:
  assumes "r \<in> set t" and "feature_col f r = Some k"
  shows "1 \<le> length (group_rows f t k)"
proof -
  have "r \<in> set (group_rows f t k)" using assms by (simp add: group_rows_def)
  then have "group_rows f t k \<noteq> []" by auto
  then show ?thesis by (simp add: Suc_le_eq)
qed

lemma bars_snd:
  "map snd (map (\<lambda>(k, n). (shown f k, n)) xs) = map snd xs"
  by (induction xs) auto

lemma bars_plain:
  assumes "categories f t = None"
  shows "set (map (\<lambda>(k, n). (shown f k, n)) (value_counts f t))
           = (\<lambda>k. (shown f k, length (group_rows f t k)))
               ` {k. \<exists>r\<in>set t. feature_col f r = Some k}"
  by (simp only: bars_set count_keys_plain [OF assms])

lemma bars_plain_positive:
  assumes "categories f t = None"
    and "(c, n) \<in> set (map (\<lambda>(k, n). (shown f k, n)) (value_counts f t))"
  shows "1 \<le> n"
proof -
  from assms(2) have "(c, n) \<in> (\<lambda>k. (shown f k, length (group_rows f t k)))
               ` {k. \<exists>r\<in>set t. feature_col f r = Some k}"
    by (simp only: bars_plain [OF assms(1)])
  then obtain k r where "r \<in> set t" "feature_col f r = Some k" "n = length (group_rows f t k)"
    by blast
  then show ?thesis using group_rows_observed by blast
qed

lemma bars_categorical:
  assumes "categories f t = Some cs"
  shows "set (map (\<lambda>(k, n). (shown f k, n)) (value_counts f t))
           = (\<lambda>k. (k, length (group_rows f t k))) ` set cs"
proof -
  have "f \<noteq> F_pclass" using assms by (rule categories_not_pclass)
  then have sh: "shown f = (\<lambda>k. k)" by (simp add: shown_def [abs_def])
  have ck: "count_keys f t = cs" using assms by (simp add: count_keys_def)
  have "set (map (\<lambda>(k, n). (shown f k, n)) (value_counts f t))
          = (\<lambda>k. (shown f k, length (group_rows f t k))) ` set (count_keys f t)"
    by (rule bars_set)
  then show ?thesis by (simp only: ck sh)
qed

text \<open>
  Claim C6, as the code has it.  The counts that \<open>get_composition_fig\<close> of
  \<open>src/titanic/app.py\<close> returns sum to the number of rows whose value of the feature is not
  missing; the returned categories are distinct; for a feature that is not categorical they
  are the observed values, each with its number of rows, which is at least 1; for the
  categorical features \<open>age_group\<close> and \<open>fare_group\<close> they are all the categories, each
  with its number of rows, which is 0 for a category that does not occur.
\<close>

theorem composition_counts:
  assumes "fare_labels_consistent t"
  shows "\<exists>bars. get_composition_fig_titanic t f = CountBars bars
    \<and> sum_list (map snd bars) = length (filter (\<lambda>r. feature_col f r \<noteq> None) t)
    \<and> distinct (map fst bars)
    \<and> (categories f t = None \<longrightarrow>
          set bars = (\<lambda>k. (shown f k, length (group_rows f t k)))
                       ` {k. \<exists>r\<in>set t. feature_col f r = Some k}
          \<and> (\<forall>c n. (c, n) \<in> set bars \<longrightarrow> 1 \<le> n))
    \<and> (\<forall>cs. categories f t = Some cs \<longrightarrow>
          set bars = (\<lambda>k. (k, length (group_rows f t k))) ` set cs)"
proof (intro exI conjI impI allI)
  show "get_composition_fig_titanic t f
          = CountBars (map (\<lambda>(k, n). (shown f k, n)) (value_counts f t))"
    by (rule composition_bars)
  show "sum_list (map snd (map (\<lambda>(k, n). (shown f k, n)) (value_counts f t)))
          = length (filter (\<lambda>r. feature_col f r \<noteq> None) t)"
    unfolding bars_snd using assms by (rule value_counts_sum)
  show "distinct (map fst (map (\<lambda>(k, n). (shown f k, n)) (value_counts f t)))"
    by (rule bars_distinct)
next
  assume "categories f t = None"
  then show "set (map (\<lambda>(k, n). (shown f k, n)) (value_counts f t))
          = (\<lambda>k. (shown f k, length (group_rows f t k)))
              ` {k. \<exists>r\<in>set t. feature_col f r = Some k}"
    by (rule bars_plain)
next
  fix c n
  assume "categories f t = None"
    and "(c, n) \<in> set (map (\<lambda>(k, n). (shown f k, n)) (value_counts f t))"
  then show "1 \<le> n" by (rule bars_plain_positive)
next
  fix cs
  assume "categories f t = Some cs"
  then show "set (map (\<lambda>(k, n). (shown f k, n)) (value_counts f t))
          = (\<lambda>k. (k, length (group_rows f t k))) ` set cs"
    by (rule bars_categorical)
qed

theorem composition_counts_witness:
  "fare_labels_consistent example_prepared
   \<and> length (filter (\<lambda>r. feature_col F_pclass r \<noteq> None) example_prepared) = 5
   \<and> (\<exists>bars. get_composition_fig_titanic example_prepared F_pclass = CountBars bars
        \<and> sum_list (map snd bars) = 5 \<and> distinct (map fst bars))"
proof -
  have h: "fare_labels_consistent example_prepared" by code_simp
  have n: "length (filter (\<lambda>r. feature_col F_pclass r \<noteq> None) example_prepared) = 5"
    by code_simp
  from composition_counts [OF h, of F_pclass] obtain bars where
    *: "get_composition_fig_titanic example_prepared F_pclass = CountBars bars
    \<and> sum_list (map snd bars)
        = length (filter (\<lambda>r. feature_col F_pclass r \<noteq> None) example_prepared)
    \<and> distinct (map fst bars)
    \<and> (categories F_pclass example_prepared = None \<longrightarrow>
          set bars = (\<lambda>k. (shown F_pclass k, length (group_rows F_pclass example_prepared k)))
                       ` {k. \<exists>r\<in>set example_prepared. feature_col F_pclass r = Some k}
          \<and> (\<forall>c n. (c, n) \<in> set bars \<longrightarrow> 1 \<le> n))
    \<and> (\<forall>cs. categories F_pclass example_prepared = Some cs \<longrightarrow>
          set bars = (\<lambda>k. (k, length (group_rows F_pclass example_prepared k))) ` set cs)" ..
  from * have b: "get_composition_fig_titanic example_prepared F_pclass = CountBars bars"
    by (rule conjunct1)
  from * have s: "sum_list (map snd bars) = 5"
    unfolding n by (elim conjE)
  from * have d: "distinct (map fst bars)"
    by (elim conjE)
  from b s d have "\<exists>bars. get_composition_fig_titanic example_prepared F_pclass = CountBars bars
        \<and> sum_list (map snd bars) = 5 \<and> distinct (map fst bars)"
    by (intro exI conjI)
  with h n show ?thesis by (intro conjI)
qed

text \<open>
  In the prepared example table four of the five rows have an age group, all of them
  \<open>Adult\<close>: the counts by age group sum to 4, not 5, and three categories are returned
  with the count 0.
\<close>

theorem composition_has_zero_counts:
  "script_titanic example_raw = Inr (example_prepared, example_survivors)
   \<and> length example_prepared = 5
   \<and> get_composition_fig_titanic example_prepared F_age_group
       = CountBars [(AgeCat Adult, 4), (AgeCat Child, 0), (AgeCat Teenager, 0), (AgeCat Senior, 0)]"
  by code_simp

section \<open>The table behind the rate figure\<close>

lemma titanic_rate_bars:
  "get_survival_fig_titanic t f =
     RateBars (map (\<lambda>(k, v). (shown f k, v)) (calculate_survival_rate t f))"
  by (simp add: get_survival_fig_titanic_def shown_def Let_def)

lemma shown_inj_on_group_keys: "inj_on (shown f) (set (group_keys True f t))"
proof (cases "f = F_pclass")
  case True
  have "set (group_keys True F_pclass t) \<subseteq> range IntCat"
    by (auto simp: group_keys_def categories_def set_unique set_somes)
  moreover have "inj_on astype_str (range IntCat)" by (auto simp: inj_on_def)
  ultimately have "inj_on astype_str (set (group_keys True F_pclass t))"
    by (rule inj_on_subset [rotated])
  then show ?thesis using True by (simp add: shown_def [abs_def])
next
  case False
  then show ?thesis by (simp add: shown_def [abs_def])
qed

lemma titanic_rate_keys_distinct:
  "distinct (map fst (map (\<lambda>(k, v). (shown f k, v)) (calculate_survival_rate t f)))"
proof -
  have e1: "map fst (map (\<lambda>(k, v). (shown f k, v)) (calculate_survival_rate t f))
          = map (shown f) (map fst (calculate_survival_rate t f))"
    by (simp add: case_prod_unfold)
  have e2: "distinct (map (shown f) (group_keys True f t))"
    using group_keys_distinct shown_inj_on_group_keys by (simp only: distinct_map simp_thms)
  show ?thesis unfolding e1 calculate_survival_rate_keys by (rule e2)
qed

lemma titanic_rate_bar:
  assumes "\<forall>r\<in>set t. survived r = 0 \<or> survived r = 1" and "fare_labels_consistent t"
    and "r \<in> set t" and "feature_col f r = Some c"
  shows "\<exists>bars. get_survival_fig_titanic t f = RateBars bars
           \<and> map_of bars (shown f c) = Some (Some (rate_percent t f c))"
proof -
  let ?bars = "map (\<lambda>(k, v). (shown f k, v)) (calculate_survival_rate t f)"
  have "map_of (calculate_survival_rate t f) c = Some (Some (rate_percent t f c))"
    using assms by (rule calculate_survival_rate_entry)
  then have "(c, Some (rate_percent t f c)) \<in> set (calculate_survival_rate t f)"
    by (rule map_of_SomeD)
  then have "(shown f c, Some (rate_percent t f c)) \<in> set ?bars" by force
  with titanic_rate_keys_distinct
  have "map_of ?bars (shown f c) = Some (Some (rate_percent t f c))"
    by (rule map_of_is_SomeI)
  with titanic_rate_bars show ?thesis by blast
qed

lemma root_rate_any_table:
  assumes "\<not> empty d" and "\<not> empty data_df"
  shows "get_survival_fig_root observed df d f = get_survival_fig_root observed df data_df f"
  using assms by (simp add: get_survival_fig_root_def)

lemma update_graphs_root_rate:
  assumes "update_graphs_root observed df dfa sel = Inr (fb, fa, fr)"
  shows "\<exists>g. map_of FEATURE_OPTIONS_root sel = Some g
           \<and> get_survival_fig_root observed df df g = Inr fr"
  using assms by (auto simp: update_graphs_root_def split: option.splits sum.splits)

lemma update_graphs_titanic_rate:
  assumes "update_graphs_titanic t ta sel = Inr (fb, fa, fr)"
  shows "\<exists>g. map_of FEATURE_OPTIONS_titanic sel = Some g \<and> fr = get_survival_fig_titanic t g"
  using assms by (auto simp: update_graphs_titanic_def split: option.splits)

text \<open>
  Claim C1, as the code has it.  On a prepared table of 0/1 outcomes, for every feature and
  every observed category: the rate figure of \<open>src/app.py\<close> shows 100 times the mean of
  \<open>survived\<close> over the group in the module-level table, rounded to two decimals, and shows
  the same for every table passed to it that is not empty; the rate figure of
  \<open>src/titanic/app.py\<close> shows that value, not rounded, for the table passed to it; and in
  both variants the callback passes the full prepared table, so that its rate figure does not
  depend on the survivors table.
\<close>

theorem rate_figure_over_full_table:
  assumes "\<forall>r\<in>set t. survived r = 0 \<or> survived r = 1" and "fare_labels_consistent t"
    and "r \<in> set t" and "feature_col f r = Some c" and "\<not> empty data_df"
  shows "(\<exists>bars. get_survival_fig_root observed (Prepared t) data_df f = Inr (RateBars bars)
            \<and> map_of bars c = Some (Some (round_dec 2 (rate_percent t f c))))
    \<and> (\<forall>d. \<not> empty d \<longrightarrow>
          get_survival_fig_root observed (Prepared t) d f
            = get_survival_fig_root observed (Prepared t) data_df f)
    \<and> (\<exists>bars. get_survival_fig_titanic t f = RateBars bars
            \<and> map_of bars (shown f c) = Some (Some (rate_percent t f c)))
    \<and> (\<forall>sel dfa fb fa fr.
          update_graphs_root observed (Prepared t) dfa sel = Inr (fb, fa, fr) \<longrightarrow>
          (\<exists>g. map_of FEATURE_OPTIONS_root sel = Some g
             \<and> get_survival_fig_root observed (Prepared t) (Prepared t) g = Inr fr))
    \<and> (\<forall>sel ta fb fa fr.
          update_graphs_titanic t ta sel = Inr (fb, fa, fr) \<longrightarrow>
          (\<exists>g. map_of FEATURE_OPTIONS_titanic sel = Some g \<and> fr = get_survival_fig_titanic t g))"
proof (intro conjI allI impI)
  show "\<exists>bars. get_survival_fig_root observed (Prepared t) data_df f = Inr (RateBars bars)
            \<and> map_of bars c = Some (Some (round_dec 2 (rate_percent t f c)))"
    using assms by (rule root_rate_bar)
  show "\<exists>bars. get_survival_fig_titanic t f = RateBars bars
            \<and> map_of bars (shown f c) = Some (Some (rate_percent t f c))"
    using assms(1-4) by (rule titanic_rate_bar)
next
  fix d
  assume "\<not> empty d"
  then show "get_survival_fig_root observed (Prepared t) d f
            = get_survival_fig_root observed (Prepared t) data_df f"
    using assms(5) by (rule root_rate_any_table)
next
  fix sel dfa fb fa fr
  assume "update_graphs_root observed (Prepared t) dfa sel = Inr (fb, fa, fr)"
  then show "\<exists>g. map_of FEATURE_OPTIONS_root sel = Some g
             \<and> get_survival_fig_root observed (Prepared t) (Prepared t) g = Inr fr"
    by (rule update_graphs_root_rate)
next
  fix sel ta fb fa fr
  assume "update_graphs_titanic t ta sel = Inr (fb, fa, fr)"
  then show "\<exists>g. map_of FEATURE_OPTIONS_titanic sel = Some g \<and> fr = get_survival_fig_titanic t g"
    by (rule update_graphs_titanic_rate)
qed

theorem rate_figure_over_full_table_witness:
  "list_all (\<lambda>r. survived r = 0 \<or> survived r = 1) example_prepared
   \<and> fare_labels_consistent example_prepared
   \<and> example_prepared ! 0 \<in> set example_prepared
   \<and> feature_col F_sex_label (example_prepared ! 0) = Some (StrCat ''Male'')
   \<and> \<not> empty (Prepared example_survivors)
   \<and> round_dec 2 (rate_percent example_prepared F_sex_label (StrCat ''Male'')) = 50
   \<and> (\<exists>bars. get_survival_fig_root False (Prepared example_prepared)
                 (Prepared example_survivors) F_sex_label = Inr (RateBars bars)
          \<and> map_of bars (StrCat ''Male'') = Some (Some 50))"
proof -
  have l: "list_all (\<lambda>r. survived r = 0 \<or> survived r = 1) example_prepared" by code_simp
  then have h1: "\<forall>r\<in>set example_prepared. survived r = 0 \<or> survived r = 1"
    by (simp only: list_all_iff)
  have h2: "fare_labels_consistent example_prepared" by code_simp
  have h3: "example_prepared ! 0 \<in> set example_prepared" by (simp add: example_prepared_def)
  have h4: "feature_col F_sex_label (example_prepared ! 0) = Some (StrCat ''Male'')"
    by code_simp
  have h5: "\<not> empty (Prepared example_survivors)" by code_simp
  have v: "round_dec 2 (rate_percent example_prepared F_sex_label (StrCat ''Male'')) = 50"
    by code_simp
  from rate_figure_over_full_table [OF h1 h2 h3 h4 h5, of False]
  have "\<exists>bars. get_survival_fig_root False (Prepared example_prepared)
                 (Prepared example_survivors) F_sex_label = Inr (RateBars bars)
          \<and> map_of bars (StrCat ''Male'')
              = Some (Some (round_dec 2 (rate_percent example_prepared F_sex_label (StrCat ''Male''))))"
    by (rule conjunct1)
  then have "\<exists>bars. get_survival_fig_root False (Prepared example_prepared)
                 (Prepared example_survivors) F_sex_label = Inr (RateBars bars)
          \<and> map_of bars (StrCat ''Male'') = Some (Some 50)"
    by (simp only: v)
  with l h2 h3 h4 h5 v show ?thesis by (intro conjI)
qed

text \<open>
  The rate function of \<open>src/titanic/app.py\<close> groups the table it is given: on the survivors
  table of the example it shows 100 for every group, where the full table gives 100/3 and 50.
  The rate function of \<open>src/app.py\<close> shows no rate at all when the table it is given is
  empty.
\<close>

theorem rate_figure_depends_on_table_passed:
  "example_survivors = survivors example_prepared
   \<and> get_survival_fig_titanic example_survivors F_sex_label
       = RateBars [(StrCat ''Female'', Some 100), (StrCat ''Male'', Some 100)]
   \<and> get_survival_fig_titanic example_prepared F_sex_label
       = RateBars [(StrCat ''Female'', Some (100 / 3)), (StrCat ''Male'', Some 50)]
   \<and> get_survival_fig_root False (Prepared example_prepared) RawEmpty F_sex_label = Inr NoData"
  by code_simp

section \<open>The fare labels of a prepared table come from one binning\<close>

lemma cut_one_in_labels:
  assumes "length labels = length bins - 1"
    and "cut_one bins right labels include_lowest x = Some l"
  shows "l \<in> set labels"
proof (cases x)
  case None
  then show ?thesis using assms(2) by (simp add: cut_one_def)
next
  case (Some v)
  let ?pos = "if right then searchsorted_left bins v else searchsorted_right bins v"
  let ?ids = "if include_lowest \<and> bins \<noteq> [] \<and> v = hd bins then 1 else ?pos"
  have r: "?ids \<noteq> length bins" "?ids \<noteq> 0" "l = labels ! (?ids - 1)"
    using assms(2) Some by (auto simp: cut_one_def Let_def split: if_splits)
  have i0: "?pos \<le> length bins"
    by (simp add: searchsorted_left_def searchsorted_right_def)
  have "?ids \<le> length bins"
  proof (cases "include_lowest \<and> bins \<noteq> [] \<and> v = hd bins")
    case True
    then have "bins \<noteq> []" by simp
    then have "Suc 0 \<le> length bins" by (cases bins) simp_all
    moreover have "?ids = 1" using True by simp
    ultimately show ?thesis by simp
  next
    case False
    then have "?ids = ?pos" by auto
    then show ?thesis using i0 by (simp only:)
  qed
  with r(1,2) have "?ids - 1 < length bins - 1" by linarith
  then have "?ids - 1 < length labels" using assms(1) by simp
  then have "labels ! (?ids - 1) \<in> set labels" by (rule nth_mem)
  then show ?thesis using r(3) by simp
qed

lemma bins_to_cuts_labels:
  assumes "bins_to_cuts x bins right labels include_lowest drop_duplicates = Inr g"
    and "Some l \<in> set g"
  shows "l \<in> set labels"
proof -
  let ?dup = "length (unique bins) < length bins \<and> length bins \<noteq> 2"
  let ?bins = "if ?dup then unique bins else bins"
  have len: "length labels = length ?bins - 1"
    and g: "g = map (cut_one ?bins right labels include_lowest) x"
    using assms(1) by (auto simp: bins_to_cuts_def Let_def split: if_splits)
  from assms(2) g obtain y where "cut_one ?bins right labels include_lowest y = Some l"
    by auto
  with len show ?thesis by (rule cut_one_in_labels)
qed

lemma qcut4_labels:
  assumes "qcut4 xs labels = Inr g" and "Some l \<in> set g"
  shows "l \<in> set labels"
proof -
  from assms(1) have "bins_to_cuts (map Some xs)
      (map (quantile (sort xs)) [0, 1 / 4, 1 / 2, 3 / 4, 1]) True labels True True = Inr g"
    by (simp add: qcut4_def Let_def split: if_splits)
  then show ?thesis using assms(2) by (rule bins_to_cuts_labels)
qed

lemma cut_nbins_labels:
  assumes "cut_nbins xs n labels = Inr g" and "Some l \<in> set g"
  shows "l \<in> set labels"
proof -
  from assms(1) obtain bins where
    "bins_to_cuts (map Some xs) bins True labels False False = Inr g"
    by (auto simp: cut_nbins_def split: sum.splits)
  then show ?thesis using assms(2) by (rule bins_to_cuts_labels)
qed

lemma fare_group_titanic_labels:
  assumes "fare_group_titanic fares = Inr g" and "Some l \<in> set g"
  shows "l \<in> set quartile_labels"
  using assms unfolding fare_group_titanic_def by (rule qcut4_labels)

lemma fare_group_root_labels:
  assumes "fare_group_root fares = Inr g"
  shows "(\<forall>l. Some l \<in> set g \<longrightarrow> l \<in> set quartile_labels)
       \<or> (\<forall>l. Some l \<in> set g \<longrightarrow> l \<in> set [Low, Medium, High])"
proof (cases "qcut4 fares quartile_labels")
  case (Inr q)
  then have "g = q" using assms by (simp add: fare_group_root_def)
  then show ?thesis using qcut4_labels [OF Inr] by blast
next
  case (Inl e)
  then have "e = ValueError" by (rule qcut4_error)
  with Inl assms have c: "cut_nbins fares 3 [Low, Medium, High] = Inr g"
    by (simp add: fare_group_root_def)
  show ?thesis using cut_nbins_labels [OF c] by blast
qed

lemma prepare_fare_groups:
  assumes "prepare fare_binning raw = Inr df"
  shows "\<exists>fares g. fare_binning fares = Inr g \<and> set (map fare_group df) \<subseteq> set g"
proof -
  obtain df2 ags fgs where f: "fare_binning (map fare df2) = Inr fgs"
    and d: "df = map (\<lambda>(r, ag, fg). add_columns r ag fg) (zip df2 (zip ags fgs))"
    using assms by (auto simp: prepare_def split: sum.splits)
  have "set (map fare_group df) \<subseteq> set fgs"
  proof
    fix x
    assume "x \<in> set (map fare_group df)"
    then obtain r ag fg where m: "(r, ag, fg) \<in> set (zip df2 (zip ags fgs))"
      and x: "x = fare_group (add_columns r ag fg)"
      using d by auto
    from m have "(ag, fg) \<in> set (zip ags fgs)" by (rule set_zip_rightD)
    then have "fg \<in> set fgs" by (rule set_zip_rightD)
    then show "x \<in> set fgs" using x by (simp add: add_columns_def)
  qed
  with f show ?thesis by blast
qed

lemma consistent_quartile:
  assumes "\<forall>l. Some l \<in> set (map fare_group t) \<longrightarrow> l \<in> set quartile_labels"
  shows "fare_labels_consistent t"
proof -
  have "\<not> list_ex (\<lambda>r. fare_group r \<in> {Some Low, Some Medium, Some High}) t"
    using assms by (force simp: list_ex_iff quartile_labels_def)
  then show ?thesis by (simp add: fare_labels_consistent_def)
qed

lemma consistent_equal_width:
  assumes "\<forall>l. Some l \<in> set (map fare_group t) \<longrightarrow> l \<in> set [Low, Medium, High]"
  shows "fare_labels_consistent t"
proof -
  have "\<not> list_ex (\<lambda>r. fare_group r \<in> {Some Q1_Low, Some Q2, Some Q3, Some Q4_High}) t"
    using assms by (force simp: list_ex_iff)
  then show ?thesis by (simp add: fare_labels_consistent_def)
qed

lemma prepared_titanic_consistent:
  assumes "prepare fare_group_titanic raw = Inr df"
  shows "fare_labels_consistent df"
proof -
  obtain fares g where g: "fare_group_titanic fares = Inr g" "set (map fare_group df) \<subseteq> set g"
    using prepare_fare_groups [OF assms] by blast
  have "\<forall>l. Some l \<in> set (map fare_group df) \<longrightarrow> l \<in> set quartile_labels"
    using g(2) fare_group_titanic_labels [OF g(1)] by blast
  then show ?thesis by (rule consistent_quartile)
qed

lemma prepared_root_consistent:
  assumes "prepare fare_group_root raw = Inr df"
  shows "fare_labels_consistent df"
proof -
  obtain fares g where g: "fare_group_root fares = Inr g" "set (map fare_group df) \<subseteq> set g"
    using prepare_fare_groups [OF assms] by blast
  from fare_group_root_labels [OF g(1)] show ?thesis
  proof
    assume "\<forall>l. Some l \<in> set g \<longrightarrow> l \<in> set quartile_labels"
    then have "\<forall>l. Some l \<in> set (map fare_group df) \<longrightarrow> l \<in> set quartile_labels"
      using g(2) by blast
    then show ?thesis by (rule consistent_quartile)
  next
    assume "\<forall>l. Some l \<in> set g \<longrightarrow> l \<in> set [Low, Medium, High]"
    then have "\<forall>l. Some l \<in> set (map fare_group df) \<longrightarrow> l \<in> set [Low, Medium, High]"
      using g(2) by blast
    then show ?thesis by (rule consistent_equal_width)
  qed
qed

lemma survivors_consistent:
  assumes "fare_labels_consistent t"
  shows "fare_labels_consistent (survivors t)"
  using assms by (auto simp: fare_labels_consistent_def survivors_def list_ex_iff)

end
